theory Spec2Isabelle
  imports Main
begin

section \<open>Time, durations and machine integers\<close>

text \<open>
  A \<^verbatim>\<open>time.Time\<close> is modelled by the instant it denotes, counted in nanoseconds
  from Go's zero time (January 1, year 1, 00:00:00 UTC), so that \<^verbatim>\<open>time.Time{}\<close> is 0,
  \<^verbatim>\<open>t.Before(u)\<close> is \<open>t < u\<close> and \<^verbatim>\<open>t.Add(d)\<close> is \<open>t + d\<close>. The instants
  the program handles (a clock reading plus or minus at most 292 years) are far inside
  the range of \<^verbatim>\<open>time.Time\<close>, so instants are unbounded integers.
  A \<^verbatim>\<open>time.Duration\<close> is a number of nanoseconds.

  The counters are \<^verbatim>\<open>int64\<close>, and \<^verbatim>\<open>int\<close> is taken as 64 bits wide (amd64, arm64),
  so the conversions between the two are the identity. Their arithmetic wraps around in
  two's complement, written out as \<open>wrap64\<close>.
\<close>

type_synonym time = int
type_synonym duration = int

definition zero_time :: time where
  "zero_time = 0"

definition Before :: "time \<Rightarrow> time \<Rightarrow> bool" where
  "Before t u = (t < u)"

definition After :: "time \<Rightarrow> time \<Rightarrow> bool" where
  "After t u = (u < t)"

definition IsZero :: "time \<Rightarrow> bool" where
  "IsZero t = (t = zero_time)"

definition Add :: "time \<Rightarrow> duration \<Rightarrow> time" where
  "Add t d = t + d"

text \<open>\<^verbatim>\<open>t.Sub(u)\<close> saturates at the least and the greatest duration.\<close>

definition Sub :: "time \<Rightarrow> time \<Rightarrow> duration" where
  "Sub t u =
     (if t - u < - (2 ^ 63) then - (2 ^ 63)
      else if 2 ^ 63 \<le> t - u then 2 ^ 63 - 1
      else t - u)"

text \<open>
  \<^verbatim>\<open>t.Truncate(d)\<close> rounds \<open>t\<close> down to a multiple of \<open>d\<close> since the zero time, and
  returns \<open>t\<close> when \<open>d \<le> 0\<close>; the remainder Go computes is never negative, as \<open>mod\<close>
  here. \<^verbatim>\<open>t.Unix()\<close> is the number of whole seconds since January 1, 1970 UTC, which is
  62135596800 seconds after the zero time.
\<close>

definition Truncate :: "time \<Rightarrow> duration \<Rightarrow> time" where
  "Truncate t d = (if d \<le> 0 then t else t - t mod d)"

definition Second :: duration where
  "Second = 1000000000"

definition Unix :: "time \<Rightarrow> int" where
  "Unix t = t div Second - 62135596800"

definition wrap64 :: "int \<Rightarrow> int" where
  "wrap64 x = (x + 2 ^ 63) mod 2 ^ 64 - 2 ^ 63"

definition is_int64 :: "int \<Rightarrow> bool" where
  "is_int64 x = (- (2 ^ 63) \<le> x \<and> x < 2 ^ 63)"

text \<open>
  A Go \<^verbatim>\<open>error\<close> value, by its message; \<open>None\<close> is the nil error.
  \<^verbatim>\<open>fmt.Errorf("...: %w", err)\<close> puts the message of \<open>err\<close> after the prefix.
\<close>

datatype error = Errorf string

fun Error :: "error \<Rightarrow> string" where
  "Error (Errorf msg) = msg"

text \<open>The verb \<^verbatim>\<open>%d\<close> of \<^verbatim>\<open>fmt.Sprintf\<close>: decimal digits, with a minus sign.\<close>

definition digit :: "nat \<Rightarrow> char" where
  "digit n = ''0123456789'' ! n"

fun decimal :: "nat \<Rightarrow> string" where
  "decimal n =
     (if n < 10 then [digit n] else decimal (n div 10) @ [digit (n mod 10)])"

declare decimal.simps [simp del]

definition format_d :: "int \<Rightarrow> string" where
  "format_d i = (if i < 0 then CHR ''-'' # decimal (nat (- i)) else decimal (nat i))"

section \<open>The in-memory store (internal/storage/memory/memory.go)\<close>

record Entry =
  Count :: int
  Expiry :: time

text \<open>
  \<^verbatim>\<open>map[string]*Entry\<close>: a key is absent (\<open>None\<close>), bound to the nil pointer
  (\<open>Some None\<close>) or bound to an entry. Every entry is allocated by \<open>Increment\<close> for
  its own key, so no two keys share one.
\<close>

type_synonym MemoryStore = "string \<Rightarrow> Entry option option"

definition NewMemoryStore :: MemoryStore where
  "NewMemoryStore = (\<lambda>k. None)"

text \<open>
  \<^verbatim>\<open>Increment\<close> reads the clock (the argument \<open>now\<close>) and then runs under the
  exclusive lock; it returns the triple (count, expiry, error) and the store it leaves.
  \<open>newEntry\<close> is its first branch.
\<close>

definition newEntry :: "time \<Rightarrow> MemoryStore \<Rightarrow> string \<Rightarrow> duration \<Rightarrow>
    (int \<times> time \<times> error option) \<times> MemoryStore" where
  "newEntry now s key ttl =
     (let e = \<lparr>Count = 1, Expiry = Add now ttl\<rparr>
      in ((1, Expiry e, None), s(key := Some (Some e))))"

definition MemoryStore_Increment :: "time \<Rightarrow> MemoryStore \<Rightarrow> string \<Rightarrow> duration \<Rightarrow>
    (int \<times> time \<times> error option) \<times> MemoryStore" where
  "MemoryStore_Increment now s key ttl =
     (case s key of
        None \<Rightarrow> newEntry now s key ttl
      | Some None \<Rightarrow> newEntry now s key ttl
      | Some (Some e) \<Rightarrow>
          if Before (Expiry e) now then newEntry now s key ttl
          else (let newv = wrap64 (Count e + 1)
                in ((newv, Expiry e, None), s(key := Some (Some (e\<lparr>Count := newv\<rparr>))))))"

definition MemoryStore_Get :: "time \<Rightarrow> MemoryStore \<Rightarrow> string \<Rightarrow> int \<times> time \<times> error option" where
  "MemoryStore_Get now s key =
     (case s key of
        None \<Rightarrow> (0, zero_time, None)
      | Some None \<Rightarrow> (0, zero_time, None)
      | Some (Some e) \<Rightarrow>
          if Before (Expiry e) now then (0, zero_time, None)
          else (Count e, Expiry e, None))"

text \<open>One tick of \<^verbatim>\<open>cleanupLoop\<close>: every nil or expired entry is deleted.\<close>

definition cleanupSweep :: "time \<Rightarrow> MemoryStore \<Rightarrow> MemoryStore" where
  "cleanupSweep now s =
     (\<lambda>k. case s k of
        None \<Rightarrow> None
      | Some None \<Rightarrow> None
      | Some (Some e) \<Rightarrow> if Before (Expiry e) now then None else Some (Some e))"

text \<open>
  A run of the store: the operations in the order in which they take the lock, each with
  the clock reading it made. \<open>exec_ops\<close> returns the counts the \<open>Increment\<close> calls
  returned and the store the run leaves.
\<close>

datatype op = OpIncrement time string duration | OpGet time string | OpSweep time

fun isIncrement :: "op \<Rightarrow> bool" where
  "isIncrement (OpIncrement now key ttl) = True"
| "isIncrement (OpGet now key) = False"
| "isIncrement (OpSweep now) = False"

fun exec_ops :: "MemoryStore \<Rightarrow> op list \<Rightarrow> int list \<times> MemoryStore" where
  "exec_ops s [] = ([], s)"
| "exec_ops s (OpIncrement now key ttl # ops) =
     (let r = MemoryStore_Increment now s key ttl;
          rest = exec_ops (snd r) ops
      in (fst (fst r) # fst rest, snd rest))"
| "exec_ops s (OpGet now key # ops) =
     (let r = MemoryStore_Get now s key in exec_ops s ops)"
| "exec_ops s (OpSweep now # ops) = exec_ops (cleanupSweep now s) ops"

text \<open>
  The clock readings and the ttls of the \<open>Increment\<close> calls of a run, in the order of the
  run.
\<close>

fun IncrementReadings :: "op list \<Rightarrow> time list" where
  "IncrementReadings [] = []"
| "IncrementReadings (OpIncrement now key ttl # ops) = now # IncrementReadings ops"
| "IncrementReadings (OpGet now key # ops) = IncrementReadings ops"
| "IncrementReadings (OpSweep now # ops) = IncrementReadings ops"

fun IncrementTtls :: "op list \<Rightarrow> duration list" where
  "IncrementTtls [] = []"
| "IncrementTtls (OpIncrement now key ttl # ops) = ttl # IncrementTtls ops"
| "IncrementTtls (OpGet now key # ops) = IncrementTtls ops"
| "IncrementTtls (OpSweep now # ops) = IncrementTtls ops"

section \<open>The engine over a Store (package internal/limiter)\<close>

record ClientConfig =
  Limit :: int
  Window :: duration

definition DefaultConfig :: ClientConfig where
  "DefaultConfig = \<lparr>Limit = 100, Window = 60 * Second\<rparr>"

definition Clients :: "string \<Rightarrow> ClientConfig option" where
  "Clients = [''client-1'' \<mapsto> \<lparr>Limit = 5, Window = 60 * Second\<rparr>,
              ''client-2'' \<mapsto> \<lparr>Limit = 2, Window = 60 * Second\<rparr>]"

definition keyForClient :: "string \<Rightarrow> string" where
  "keyForClient client = ''rate:'' @ client"

text \<open>
  The \<^verbatim>\<open>Store\<close> interface is a parameter: \<open>storeIncrement\<close> maps the state of the
  store, a key and a ttl to the triple the call returns and the state it leaves.
  \<open>now\<close> is the clock reading \<open>Allow\<close> makes before it calls the store. The result
  is (allowed, remaining, resetAt, error).
\<close>

definition Limiter_Allow :: "(string \<Rightarrow> ClientConfig option) \<Rightarrow>
    ('s \<Rightarrow> string \<Rightarrow> duration \<Rightarrow> (int \<times> time \<times> error option) \<times> 's) \<Rightarrow>
    time \<Rightarrow> 's \<Rightarrow> string \<Rightarrow> (bool \<times> int \<times> time \<times> error option) \<times> 's" where
  "Limiter_Allow configs storeIncrement now st client =
     (let cfg = (case configs client of Some c \<Rightarrow> c | None \<Rightarrow> DefaultConfig);
          key = keyForClient client;
          ttl = ClientConfig.Window cfg;
          r = storeIncrement st key ttl;
          counter = fst (fst r);
          expiry = fst (snd (fst r))
      in case snd (snd (fst r)) of
           Some err \<Rightarrow> ((True, Limit cfg, zero_time, Some err), snd r)
         | None \<Rightarrow>
             (let allowed = (counter \<le> Limit cfg);
                  remaining = wrap64 (Limit cfg - counter);
                  remaining = (if remaining < 0 then 0 else remaining)
              in if Before expiry now then ((allowed, remaining, zero_time, None), snd r)
                 else ((allowed, remaining, expiry, None), snd r)))"

text \<open>The allowed flag, the remaining quota and the error of a decision.\<close>

definition verdict :: "bool \<times> int \<times> time \<times> error option \<Rightarrow> bool \<times> int \<times> error option" where
  "verdict d = (fst d, fst (snd d), snd (snd (snd d)))"

text \<open>
  Consecutive \<open>Allow\<close> calls of one client on the in-memory store. Each call comes with
  two clock readings: the one \<open>Allow\<close> makes and the later one \<open>Increment\<close> makes.
\<close>

fun Allow_calls :: "(string \<Rightarrow> ClientConfig option) \<Rightarrow> MemoryStore \<Rightarrow> string \<Rightarrow>
    (time \<times> time) list \<Rightarrow> (bool \<times> int \<times> time \<times> error option) list \<times> MemoryStore" where
  "Allow_calls configs s client [] = ([], s)"
| "Allow_calls configs s client (t # ts) =
     (let r = Limiter_Allow configs (MemoryStore_Increment (snd t)) (fst t) s client;
          rest = Allow_calls configs (snd r) client ts
      in (fst r # fst rest, snd rest))"

text \<open>
  The stores of the engine's tests: one whose every call fails, and one that answers
  with an expiry one second in the past (\<open>now\<close> is its clock reading).
\<close>

definition mockStoreError_Increment :: "unit \<Rightarrow> string \<Rightarrow> duration \<Rightarrow>
    (int \<times> time \<times> error option) \<times> unit" where
  "mockStoreError_Increment u key ttl = ((0, zero_time, Some (Errorf ''mock increment error'')), u)"


section \<open>The Redis store (package internal/storage/redis)\<close>

text \<open>
  The go-redis client is not part of the repository. It is a parameter: the pipeline
  that \<^verbatim>\<open>Increment\<close> executes (INCR, then TTL, in one round trip) and the EXPIRE command,
  each mapping the state of the backend to its answer and the state it leaves.
\<close>

record 'r GoRedis =
  ExecIncrTTL :: "'r \<Rightarrow> string \<Rightarrow> ((int \<times> duration) \<times> error option) \<times> 'r"
  ExpireErr :: "'r \<Rightarrow> string \<Rightarrow> duration \<Rightarrow> error option \<times> 'r"

definition RedisStore_Increment :: "'r GoRedis \<Rightarrow> time \<Rightarrow> 'r \<Rightarrow> string \<Rightarrow> duration \<Rightarrow>
    (int \<times> time \<times> error option) \<times> 'r" where
  "RedisStore_Increment client now r key ttl =
     (let p = ExecIncrTTL client r key
      in case snd (fst p) of
           Some err \<Rightarrow>
             ((0, zero_time, Some (Errorf (''redis pipeline error: '' @ Error err))), snd p)
         | None \<Rightarrow>
             (let counter = fst (fst (fst p));
                  currentTTL = snd (fst (fst p))
              in if currentTTL = - 1 \<or> currentTTL = - 2
                 then (let x = ExpireErr client (snd p) key ttl
                       in case fst x of
                            Some err \<Rightarrow>
                              ((counter, zero_time,
                                Some (Errorf (''redis expire error: '' @ Error err))), snd x)
                          | None \<Rightarrow> ((counter, Add now ttl, None), snd x))
                 else ((counter, Add now currentTTL, None), snd p)))"

section \<open>The engine over a Redis client (package limiter)\<close>

record ClientLimit =
  Requests :: int
  Window :: duration

record RateLimiter =
  clientLimits :: "string \<Rightarrow> ClientLimit option"
  defaultLimit :: ClientLimit

text \<open>The \<^verbatim>\<open>RedisClient\<close> interface, over the state of the backend.\<close>

record 'r RedisClient =
  Incr :: "'r \<Rightarrow> string \<Rightarrow> (int \<times> error option) \<times> 'r"
  TTL :: "'r \<Rightarrow> string \<Rightarrow> (duration \<times> error option) \<times> 'r"
  Expire :: "'r \<Rightarrow> string \<Rightarrow> duration \<Rightarrow> (bool \<times> error option) \<times> 'r"

definition NewRateLimiter :: "ClientLimit \<Rightarrow> RateLimiter" where
  "NewRateLimiter dl = \<lparr>clientLimits = (\<lambda>k. None), defaultLimit = dl\<rparr>"

definition SetLimit :: "RateLimiter \<Rightarrow> string \<Rightarrow> ClientLimit \<Rightarrow> RateLimiter" where
  "SetLimit rl clientID limit = rl\<lparr>clientLimits := (clientLimits rl)(clientID \<mapsto> limit)\<rparr>"

definition GetLimit :: "RateLimiter \<Rightarrow> string \<Rightarrow> ClientLimit" where
  "GetLimit rl clientID =
     (case clientLimits rl clientID of Some v \<Rightarrow> v | None \<Rightarrow> defaultLimit rl)"

definition windowStart :: "time \<Rightarrow> duration \<Rightarrow> time" where
  "windowStart t window = Truncate t window"

definition generateKey :: "string \<Rightarrow> time \<Rightarrow> duration \<Rightarrow> string" where
  "generateKey ClientID t window =
     (let ws = windowStart t window
      in ''reatelimit:'' @ ClientID @ '':'' @ format_d (Unix ws))"

text \<open>The result of \<open>fixedWindow_Allow\<close> is (allowed, remaining, resetIn, error).\<close>

definition fixedWindow_Allow :: "'r RedisClient \<Rightarrow> RateLimiter \<Rightarrow> time \<Rightarrow> 'r \<Rightarrow> string \<Rightarrow>
    (bool \<times> int \<times> duration \<times> error option) \<times> 'r" where
  "fixedWindow_Allow redis rl now r clientID =
     (let limit = GetLimit rl clientID
      in if Requests limit \<le> 0 \<or> ClientLimit.Window limit \<le> 0
         then ((False, 0, 0,
                Some (Errorf (''invalid limit configuration for client '' @ clientID))), r)
         else
           (let key = generateKey clientID now (ClientLimit.Window limit);
                i = Incr redis r key;
                count = fst (fst i)
            in case snd (fst i) of
                 Some err \<Rightarrow> ((False, 0, 0, Some err), snd i)
               | None \<Rightarrow>
                   (let x = (if count = 1 then Expire redis (snd i) key (ClientLimit.Window limit)
                             else ((True, None), snd i))
                    in case snd (fst x) of
                         Some err \<Rightarrow> ((False, 0, 0, Some err), snd x)
                       | None \<Rightarrow>
                           (let remaining = wrap64 (Requests limit - count);
                                remaining = (if remaining < 0 then 0 else remaining);
                                ws = windowStart now (ClientLimit.Window limit);
                                resetIn = Sub (Add ws (ClientLimit.Window limit)) now;
                                allowed = (count \<le> Requests limit)
                            in ((allowed, remaining, resetIn, None), snd x)))))"

subsection \<open>The test double mockRedis (limiter tests)\<close>

text \<open>
  The repository's stand-in for a Redis server. Reading a key that is not in the Go map
  gives the zero struct, which \<open>mock_lookup\<close> writes out. \<open>now\<close> is the clock reading
  of the call; the client \<open>mockRedis now\<close> answers all its calls at the one reading.
\<close>

text \<open>The fields \<^verbatim>\<open>count\<close> and \<^verbatim>\<open>ttl\<close> of the map's anonymous struct.\<close>

record mockEntry =
  m_count :: int
  m_ttl :: time

type_synonym mockStore = "string \<Rightarrow> mockEntry option"

definition newMockRedis :: mockStore where
  "newMockRedis = (\<lambda>k. None)"

definition mock_lookup :: "mockStore \<Rightarrow> string \<Rightarrow> mockEntry" where
  "mock_lookup m key = (case m key of None \<Rightarrow> \<lparr>m_count = 0, m_ttl = zero_time\<rparr> | Some s \<Rightarrow> s)"

definition mock_Incr :: "time \<Rightarrow> mockStore \<Rightarrow> string \<Rightarrow> (int \<times> error option) \<times> mockStore" where
  "mock_Incr now m key =
     (let s = mock_lookup m key;
          s = (if \<not> IsZero (m_ttl s) \<and> After now (m_ttl s) then \<lparr>m_count = 0, m_ttl = zero_time\<rparr> else s);
          s = s\<lparr>m_count := wrap64 (m_count s + 1)\<rparr>
      in ((m_count s, None), m(key \<mapsto> s)))"

definition mock_TTL :: "time \<Rightarrow> mockStore \<Rightarrow> string \<Rightarrow> (duration \<times> error option) \<times> mockStore" where
  "mock_TTL now m key =
     (let s = mock_lookup m key
      in if IsZero (m_ttl s) then ((- 1, None), m) else ((Sub (m_ttl s) now, None), m))"

definition mock_Expire :: "time \<Rightarrow> mockStore \<Rightarrow> string \<Rightarrow> duration \<Rightarrow>
    (bool \<times> error option) \<times> mockStore" where
  "mock_Expire now m key d =
     (let s = mock_lookup m key;
          s = s\<lparr>m_ttl := Add now d\<rparr>
      in ((True, None), m(key \<mapsto> s)))"

definition mockRedis :: "time \<Rightarrow> mockStore RedisClient" where
  "mockRedis now = \<lparr>Incr = mock_Incr now, TTL = mock_TTL now, Expire = mock_Expire now\<rparr>"

text \<open>
  Failing backends, as inputs for the error paths; they are values of the client
  interfaces, not code of the repository. \<open>unreachableRedis\<close> refuses every command.
  \<open>lostAfterIncr\<close> is lost after the increment: INCR answers as \<open>mockRedis\<close> does, and
  every later EXPIRE fails with a connection error and changes nothing.
  \<open>replyLost\<close> applies INCR as \<open>mockRedis\<close> does and loses the reply: the client gets
  a timeout. \<open>lostAfterPipeline\<close> and \<open>pipelineReplyLost\<close> are the same two for
  the go-redis client of the Redis store, whose pipeline is INCR, then TTL; after a
  failed pipeline the commands read as 0.
\<close>

definition unreachableRedis :: "'r RedisClient" where
  "unreachableRedis =
     \<lparr>Incr = (\<lambda>r key. ((0, Some (Errorf ''connection refused'')), r)),
      TTL = (\<lambda>r key. ((0, Some (Errorf ''connection refused'')), r)),
      Expire = (\<lambda>r key d. ((False, Some (Errorf ''connection refused'')), r))\<rparr>"

definition lostAfterIncr :: "time \<Rightarrow> mockStore RedisClient" where
  "lostAfterIncr now =
     (mockRedis now)\<lparr>Expire := (\<lambda>m key d. ((False, Some (Errorf ''connection reset'')), m))\<rparr>"

definition lostAfterPipeline :: "time \<Rightarrow> mockStore GoRedis" where
  "lostAfterPipeline now =
     \<lparr>ExecIncrTTL = (\<lambda>m key.
          (let i = mock_Incr now m key; t = mock_TTL now (snd i) key
           in (((fst (fst i), fst (fst t)), None), snd t))),
       ExpireErr = (\<lambda>m key d. (Some (Errorf ''connection reset''), m))\<rparr>"


definition replyLost :: "time \<Rightarrow> mockStore RedisClient" where
  "replyLost now =
     (mockRedis now)\<lparr>Incr := (\<lambda>m key. ((0, Some (Errorf ''i/o timeout'')), snd (mock_Incr now m key)))\<rparr>"

definition pipelineReplyLost :: "time \<Rightarrow> mockStore GoRedis" where
  "pipelineReplyLost now =
     \<lparr>ExecIncrTTL = (\<lambda>m key. (((0, 0), Some (Errorf ''i/o timeout'')), snd (mock_Incr now m key))),
       ExpireErr = (\<lambda>m key d. (Some (Errorf ''i/o timeout''), m))\<rparr>"

section \<open>Machine arithmetic\<close>

lemma wrap64_id: "is_int64 x \<Longrightarrow> wrap64 x = x"
  unfolding wrap64_def is_int64_def by simp

lemma wrap64_succ: "is_int64 c \<Longrightarrow> c \<noteq> 2 ^ 63 - 1 \<Longrightarrow> wrap64 (c + 1) = c + 1"
  by (rule wrap64_id) (simp add: is_int64_def)

section \<open>The in-memory store\<close>

text \<open>
  C9: for every key, ttl, clock reading and store state, \<open>Increment\<close> and \<open>Get\<close> of the
  in-memory store return the nil error.
\<close>

theorem C9_memory_store_never_errors:
  "snd (snd (fst (MemoryStore_Increment now s key ttl))) = None
   \<and> snd (snd (MemoryStore_Get now' s key)) = None"
  by (simp add: MemoryStore_Increment_def MemoryStore_Get_def newEntry_def Let_def
      split: option.split)

theorem C9_memory_store_never_errors_witness:
  "snd (snd (fst (MemoryStore_Increment 5 NewMemoryStore ''rate:c1'' 60))) = None
   \<and> snd (snd (MemoryStore_Get 7 NewMemoryStore ''rate:c1'')) = None"
  using C9_memory_store_never_errors [of 5 NewMemoryStore "''rate:c1''" 60 7]
  by simp

text \<open>
  C1, as the code has it: \<open>Increment\<close> creates the entry with count 1 and expiry
  \<open>now + ttl\<close> when the key is absent, bound to nil, or its expiry is strictly before
  \<open>now\<close>. Otherwise (also when \<open>now\<close> equals the expiry) it adds one to the count in
  \<^verbatim>\<open>int64\<close> arithmetic, which is the count plus one unless the count is the greatest
  \<^verbatim>\<open>int64\<close>, and returns the expiry the entry has. No other key changes.
\<close>

theorem C1_Increment_creates_or_bumps:
  "(s key = None \<or> s key = Some None \<or> (\<exists>e. s key = Some (Some e) \<and> Expiry e < now)
      \<longrightarrow> fst (MemoryStore_Increment now s key ttl) = (1, now + ttl, None)
        \<and> snd (MemoryStore_Increment now s key ttl) key
            = Some (Some \<lparr>Count = 1, Expiry = now + ttl\<rparr>))
   \<and> (\<forall>e. s key = Some (Some e) \<and> now \<le> Expiry e
      \<longrightarrow> fst (MemoryStore_Increment now s key ttl) = (wrap64 (Count e + 1), Expiry e, None)
        \<and> snd (MemoryStore_Increment now s key ttl) key
            = Some (Some \<lparr>Count = wrap64 (Count e + 1), Expiry = Expiry e\<rparr>)
        \<and> (is_int64 (Count e) \<and> Count e \<noteq> 2 ^ 63 - 1 \<longrightarrow> wrap64 (Count e + 1) = Count e + 1))
   \<and> (\<forall>k. k \<noteq> key \<longrightarrow> snd (MemoryStore_Increment now s key ttl) k = s k)"
  by (auto simp: MemoryStore_Increment_def newEntry_def Before_def Add_def Let_def wrap64_succ
      split: option.split)

text \<open>
  The witness: a first call at time 100 with ttl 60 creates the entry, and a second call
  at time 160, the instant of the expiry, finds it live and returns count 2.
\<close>

theorem C1_Increment_creates_or_bumps_witness:
  "fst (MemoryStore_Increment 100 NewMemoryStore ''rate:c1'' 60) = (1, 160, None)
   \<and> fst (MemoryStore_Increment 160
        (NewMemoryStore(''rate:c1'' := Some (Some \<lparr>Count = 1, Expiry = 160\<rparr>))) ''rate:c1'' 60)
       = (2, 160, None)"
proof -
  let ?s = "NewMemoryStore(''rate:c1'' := Some (Some \<lparr>Count = 1, Expiry = 160\<rparr>))"
  have a: "NewMemoryStore ''rate:c1'' = None"
    by (simp add: NewMemoryStore_def)
  have b: "?s ''rate:c1'' = Some (Some \<lparr>Count = 1, Expiry = 160\<rparr>)"
    by simp
  have "fst (MemoryStore_Increment 100 NewMemoryStore ''rate:c1'' 60) = (1, 100 + 60, None)"
    using C1_Increment_creates_or_bumps [of NewMemoryStore "''rate:c1''" 100 60] a by blast
  moreover have "fst (MemoryStore_Increment 160 ?s ''rate:c1'' 60)
      = (wrap64 (Count \<lparr>Count = 1, Expiry = 160\<rparr> + 1), Expiry \<lparr>Count = 1, Expiry = 160\<rparr>, None)"
    using C1_Increment_creates_or_bumps [of ?s "''rate:c1''" 160 60] b by simp
  ultimately show ?thesis
    by (simp add: wrap64_def)
qed

text \<open>
  C1 as stated fails where \<open>now\<close> equals the expiry: the entry with count 3 and expiry
  10 is incremented at time 10, not replaced by a fresh one with count 1 and expiry 15.
\<close>

theorem C1_expiry_instant_counterexample:
  "fst (MemoryStore_Increment 10
      (NewMemoryStore(''k'' := Some (Some \<lparr>Count = 3, Expiry = 10\<rparr>))) ''k'' 5) = (4, 10, None)
   \<and> fst (MemoryStore_Increment 10
      (NewMemoryStore(''k'' := Some (Some \<lparr>Count = 3, Expiry = 10\<rparr>))) ''k'' 5) \<noteq> (1, 10 + 5, None)"
  by (simp add: MemoryStore_Increment_def newEntry_def Before_def Add_def Let_def wrap64_def)

section \<open>Runs of the in-memory store\<close>

text \<open>
  The invariant of a run: no key is bound to nil, and every count is at least 1 and at
  most \<open>n\<close>, a bound on the number of \<open>Increment\<close> calls so far.
\<close>

lemma counts_within_sweep:
  assumes "\<forall>k. s k \<noteq> Some None \<and> (\<forall>e. s k = Some (Some e) \<longrightarrow> 1 \<le> Count e \<and> Count e \<le> n)"
  shows "cleanupSweep now s k \<noteq> Some None
         \<and> (\<forall>e. cleanupSweep now s k = Some (Some e) \<longrightarrow> 1 \<le> Count e \<and> Count e \<le> n)"
  using assms [rule_format, of k] unfolding cleanupSweep_def
  by (auto split: option.splits if_splits)

lemma counts_within_Increment:
  assumes inv: "\<forall>k. s k \<noteq> Some None \<and> (\<forall>e. s k = Some (Some e) \<longrightarrow> 1 \<le> Count e \<and> Count e \<le> n)"
    and "0 \<le> n" and "n + 1 < 2 ^ 63"
  shows "\<forall>k. snd (MemoryStore_Increment now s key ttl) k \<noteq> Some None
           \<and> (\<forall>e. snd (MemoryStore_Increment now s key ttl) k = Some (Some e)
                 \<longrightarrow> 1 \<le> Count e \<and> Count e \<le> n + 1)"
    and "1 \<le> fst (fst (MemoryStore_Increment now s key ttl))"
proof -
  from inv have b: "1 \<le> Count e \<and> Count e \<le> n" if "s k = Some (Some e)" for k e
    using that by auto
  from inv have nn: "s k \<noteq> Some None" for k
    by auto
  have w: "wrap64 (Count e + 1) = Count e + 1" if "s key = Some (Some e)" for e
    using b [OF that] assms(3) by (intro wrap64_id) (simp add: is_int64_def)
  show "\<forall>k. snd (MemoryStore_Increment now s key ttl) k \<noteq> Some None
           \<and> (\<forall>e. snd (MemoryStore_Increment now s key ttl) k = Some (Some e)
                 \<longrightarrow> 1 \<le> Count e \<and> Count e \<le> n + 1)"
  proof (intro allI conjI impI)
    fix k
    show "snd (MemoryStore_Increment now s key ttl) k \<noteq> Some None"
      using nn [of k]
      by (auto simp: MemoryStore_Increment_def newEntry_def Let_def split: option.split)
  next
    fix k e
    assume "snd (MemoryStore_Increment now s key ttl) k = Some (Some e)"
    then have "1 \<le> Count e \<and> Count e \<le> n + 1"
      using b [of k] b [of key] w assms(2)
      by (auto simp: MemoryStore_Increment_def newEntry_def Let_def
          split: option.splits if_splits)
    then show "1 \<le> Count e" "Count e \<le> n + 1" by auto
  qed
  show "1 \<le> fst (fst (MemoryStore_Increment now s key ttl))"
    using b [of key] w
    by (auto simp: MemoryStore_Increment_def newEntry_def Let_def split: option.split)
qed

lemma exec_ops_counts:
  assumes "\<forall>k. s k \<noteq> Some None \<and> (\<forall>e. s k = Some (Some e) \<longrightarrow> 1 \<le> Count e \<and> Count e \<le> n)"
    and "0 \<le> n"
    and "n + int (length (filter isIncrement ops)) < 2 ^ 63"
  shows "(\<forall>k. snd (exec_ops s ops) k \<noteq> Some None
            \<and> (\<forall>e. snd (exec_ops s ops) k = Some (Some e) \<longrightarrow> 1 \<le> Count e))
         \<and> (\<forall>c \<in> set (fst (exec_ops s ops)). 1 \<le> c)"
  using assms
proof (induction ops arbitrary: s n)
  case Nil
  then show ?case by simp
next
  case (Cons x ops)
  show ?case
  proof (cases x)
    case (OpIncrement now key ttl)
    let ?r = "MemoryStore_Increment now s key ttl"
    from Cons.prems OpIncrement have n1: "n + 1 < 2 ^ 63" "0 \<le> n + 1"
      and rest: "n + 1 + int (length (filter isIncrement ops)) < 2 ^ 63"
      by simp_all
    note step = counts_within_Increment [OF Cons.prems(1,2) n1(1), of now key ttl]
    from Cons.IH [OF step(1) n1(2) rest] step(2) OpIncrement show ?thesis
      by (simp add: Let_def)
  next
    case (OpGet now key)
    with Cons.IH [OF Cons.prems(1,2)] Cons.prems(3) show ?thesis by simp
  next
    case (OpSweep now)
    have "\<forall>k. cleanupSweep now s k \<noteq> Some None
         \<and> (\<forall>e. cleanupSweep now s k = Some (Some e) \<longrightarrow> 1 \<le> Count e \<and> Count e \<le> n)"
      using counts_within_sweep [OF Cons.prems(1)] by blast
    from Cons.IH [OF this Cons.prems(2)] Cons.prems(3) OpSweep show ?thesis by simp
  qed
qed

lemma exec_ops_append:
  "exec_ops s (xs @ ys) =
     (fst (exec_ops s xs) @ fst (exec_ops (snd (exec_ops s xs)) ys),
      snd (exec_ops (snd (exec_ops s xs)) ys))"
proof (induction xs arbitrary: s)
  case Nil
  then show ?case by simp
next
  case (Cons x xs)
  then show ?case by (cases x) (simp_all add: Let_def)
qed

text \<open>Calls on a live entry, all at one clock reading, as long as the count does not wrap.\<close>

lemma exec_replicate_live:
  assumes "s key = Some (Some e)" and "now \<le> Expiry e"
    and "- (2 ^ 63) \<le> Count e" and "Count e + int n < 2 ^ 63"
  shows "exec_ops s (replicate n (OpIncrement now key ttl))
           = (map (\<lambda>i. Count e + 1 + int i) [0..<n],
              s(key := Some (Some (e\<lparr>Count := Count e + int n\<rparr>))))"
  using assms
proof (induction n arbitrary: s e)
  case 0
  then show ?case by (simp add: fun_upd_idem)
next
  case (Suc n)
  let ?e = "e\<lparr>Count := Count e + 1\<rparr>"
  let ?s = "s(key := Some (Some ?e))"
  have w: "wrap64 (Count e + 1) = Count e + 1"
    using Suc.prems by (intro wrap64_id) (simp add: is_int64_def)
  with Suc.prems have 1: "MemoryStore_Increment now s key ttl = ((Count e + 1, Expiry e, None), ?s)"
    by (simp add: MemoryStore_Increment_def Before_def Let_def)
  have "exec_ops ?s (replicate n (OpIncrement now key ttl))
           = (map (\<lambda>i. Count ?e + 1 + int i) [0..<n],
              ?s(key := Some (Some (?e\<lparr>Count := Count ?e + int n\<rparr>))))"
    using Suc.prems by (intro Suc.IH) simp_all
  then have rest: "exec_ops ?s (replicate n (OpIncrement now key ttl))
           = (map (\<lambda>i. Count e + 1 + int (Suc i)) [0..<n],
              s(key := Some (Some (e\<lparr>Count := Count e + int (Suc n)\<rparr>))))"
    by (simp add: ac_simps)
  have "exec_ops s (replicate (Suc n) (OpIncrement now key ttl))
          = ((Count e + 1) # fst (exec_ops ?s (replicate n (OpIncrement now key ttl))),
             snd (exec_ops ?s (replicate n (OpIncrement now key ttl))))"
    by (simp add: 1 Let_def)
  also have "\<dots> = (map (\<lambda>i. Count e + 1 + int i) [0..<Suc n],
              s(key := Some (Some (e\<lparr>Count := Count e + int (Suc n)\<rparr>))))"
    unfolding rest by (simp add: map_upt_Suc del: upt_Suc)
  finally show ?case .
qed

text \<open>
  A second invariant, for a clock that advances from one \<open>Increment\<close> to the next:
  the count of an entry, less one, plus the time left until its expiry at the last
  reading stays below \<open>2 ^ 63 - 1\<close>, so a live entry is never at the greatest count.
\<close>

lemma lifetime_sweep:
  assumes "\<forall>k. s k \<noteq> Some None
      \<and> (\<forall>e. s k = Some (Some e) \<longrightarrow> 1 \<le> Count e \<and> Count e - 1 + (Expiry e - prev) < 2 ^ 63 - 1)"
  shows "cleanupSweep now s k \<noteq> Some None
      \<and> (\<forall>e. cleanupSweep now s k = Some (Some e)
            \<longrightarrow> 1 \<le> Count e \<and> Count e - 1 + (Expiry e - prev) < 2 ^ 63 - 1)"
  using assms [rule_format, of k] unfolding cleanupSweep_def
  by (auto split: option.splits if_splits)

lemma lifetime_Increment:
  assumes inv: "\<forall>k. s k \<noteq> Some None
      \<and> (\<forall>e. s k = Some (Some e) \<longrightarrow> 1 \<le> Count e \<and> Count e - 1 + (Expiry e - prev) < 2 ^ 63 - 1)"
    and "prev < now" and "ttl < 2 ^ 63 - 1"
  shows "\<forall>k. snd (MemoryStore_Increment now s key ttl) k \<noteq> Some None
           \<and> (\<forall>e. snd (MemoryStore_Increment now s key ttl) k = Some (Some e)
                 \<longrightarrow> 1 \<le> Count e \<and> Count e - 1 + (Expiry e - now) < 2 ^ 63 - 1)"
    and "1 \<le> fst (fst (MemoryStore_Increment now s key ttl))"
proof -
  from inv have b: "1 \<le> Count e \<and> Count e - 1 + (Expiry e - prev) < 2 ^ 63 - 1"
    if "s k = Some (Some e)" for k e
    using that by auto
  from inv have nn: "s k \<noteq> Some None" for k
    by auto
  have w: "wrap64 (Count e + 1) = Count e + 1" if "s key = Some (Some e)" "now \<le> Expiry e" for e
    using b [OF that(1)] that(2) assms(2) by (intro wrap64_id) (simp add: is_int64_def)
  show "\<forall>k. snd (MemoryStore_Increment now s key ttl) k \<noteq> Some None
           \<and> (\<forall>e. snd (MemoryStore_Increment now s key ttl) k = Some (Some e)
                 \<longrightarrow> 1 \<le> Count e \<and> Count e - 1 + (Expiry e - now) < 2 ^ 63 - 1)"
  proof (intro allI conjI impI)
    fix k
    show "snd (MemoryStore_Increment now s key ttl) k \<noteq> Some None"
      using nn [of k]
      by (auto simp: MemoryStore_Increment_def newEntry_def Let_def split: option.split)
  next
    fix k e
    assume "snd (MemoryStore_Increment now s key ttl) k = Some (Some e)"
    then have "1 \<le> Count e \<and> Count e - 1 + (Expiry e - now) < 2 ^ 63 - 1"
      using b [of k] b [of key] w assms(2,3)
      by (auto simp: MemoryStore_Increment_def newEntry_def Before_def Add_def Let_def
          split: option.splits if_splits)
    then show "1 \<le> Count e" "Count e - 1 + (Expiry e - now) < 2 ^ 63 - 1" by auto
  qed
  show "1 \<le> fst (fst (MemoryStore_Increment now s key ttl))"
    using b [of key] w
    by (auto simp: MemoryStore_Increment_def newEntry_def Before_def Let_def split: option.split)
qed

lemma exec_ops_lifetime:
  assumes "\<forall>k. s k \<noteq> Some None
      \<and> (\<forall>e. s k = Some (Some e) \<longrightarrow> 1 \<le> Count e \<and> Count e - 1 + (Expiry e - prev) < 2 ^ 63 - 1)"
    and "sorted_wrt (<) (IncrementReadings ops)"
    and "\<forall>t \<in> set (IncrementReadings ops). prev < t"
    and "\<forall>d \<in> set (IncrementTtls ops). d < 2 ^ 63 - 1"
  shows "(\<forall>k. snd (exec_ops s ops) k \<noteq> Some None
            \<and> (\<forall>e. snd (exec_ops s ops) k = Some (Some e) \<longrightarrow> 1 \<le> Count e))
         \<and> (\<forall>c \<in> set (fst (exec_ops s ops)). 1 \<le> c)"
  using assms
proof (induction ops arbitrary: s prev)
  case Nil
  then show ?case by simp
next
  case (Cons x ops)
  show ?case
  proof (cases x)
    case (OpIncrement now key ttl)
    from Cons.prems OpIncrement have a: "prev < now" "ttl < 2 ^ 63 - 1"
      and b: "sorted_wrt (<) (IncrementReadings ops)" "\<forall>t \<in> set (IncrementReadings ops). now < t"
        "\<forall>d \<in> set (IncrementTtls ops). d < 2 ^ 63 - 1"
      by auto
    note step = lifetime_Increment [OF Cons.prems(1) a, of key]
    from Cons.IH [OF step(1) b] step(2) OpIncrement show ?thesis
      by (simp add: Let_def)
  next
    case (OpGet now key)
    with Cons.IH [OF Cons.prems(1), of ] Cons.prems(2,3,4) show ?thesis by simp
  next
    case (OpSweep now)
    have "\<forall>k. cleanupSweep now s k \<noteq> Some None
         \<and> (\<forall>e. cleanupSweep now s k = Some (Some e)
               \<longrightarrow> 1 \<le> Count e \<and> Count e - 1 + (Expiry e - prev) < 2 ^ 63 - 1)"
      using lifetime_sweep [OF Cons.prems(1)] by blast
    from Cons.IH [OF this] Cons.prems(2,3,4) OpSweep show ?thesis by simp
  qed
qed

lemma below_all: "\<exists>l :: int. \<forall>t \<in> set ts. l < t"
proof (induction ts)
  case Nil
  then show ?case by simp
next
  case (Cons t ts)
  then obtain l where "\<forall>u \<in> set ts. l < u" by blast
  then have "\<forall>u \<in> set (t # ts). min l (t - 1) < u" by auto
  then show ?case by blast
qed

text \<open>
  C10: after every run of \<open>Increment\<close>, \<open>Get\<close> and sweep operations from a fresh store,
  no key is bound to nil, every entry in the map has a count of at least 1, and every
  count that \<open>Increment\<close> returned is at least 1. The run is one the program can perform:
  it holds fewer than \<open>2 ^ 63\<close> \<open>Increment\<close> calls, or its \<open>Increment\<close> calls read a clock
  that advances from one call to the next and pass ttls below the greatest
  \<^verbatim>\<open>time.Duration\<close>.
\<close>

theorem C10_counts_at_least_one:
  assumes "length (filter isIncrement ops) < 2 ^ 63
     \<or> (sorted_wrt (<) (IncrementReadings ops) \<and> (\<forall>d \<in> set (IncrementTtls ops). d < 2 ^ 63 - 1))"
  shows "(\<forall>k. case snd (exec_ops NewMemoryStore ops) k of
               None \<Rightarrow> True | Some None \<Rightarrow> False | Some (Some e) \<Rightarrow> 1 \<le> Count e)
         \<and> (\<forall>c \<in> set (fst (exec_ops NewMemoryStore ops)). 1 \<le> c)"
proof -
  have "(\<forall>k. snd (exec_ops NewMemoryStore ops) k \<noteq> Some None
            \<and> (\<forall>e. snd (exec_ops NewMemoryStore ops) k = Some (Some e) \<longrightarrow> 1 \<le> Count e))
         \<and> (\<forall>c \<in> set (fst (exec_ops NewMemoryStore ops)). 1 \<le> c)"
    using assms
  proof
    assume "length (filter isIncrement ops) < 2 ^ 63"
    then have "int (length (filter isIncrement ops)) < 2 ^ 63"
      by (metis of_nat_less_iff of_nat_numeral of_nat_power)
    then show ?thesis
      by (intro exec_ops_counts [where n = 0]) (simp_all add: NewMemoryStore_def)
  next
    assume h: "sorted_wrt (<) (IncrementReadings ops) \<and> (\<forall>d \<in> set (IncrementTtls ops). d < 2 ^ 63 - 1)"
    obtain l where "\<forall>t \<in> set (IncrementReadings ops). l < t"
      using below_all by blast
    with h show ?thesis
      by (intro exec_ops_lifetime [where prev = l]) (simp_all add: NewMemoryStore_def)
  qed
  then show ?thesis
    by (auto split: option.split)
qed

text \<open>
  The witness: two calls for one key, a sweep after the window, a call for another key
  and a read.
\<close>

theorem C10_counts_at_least_one_witness:
  "length (filter isIncrement
      [OpIncrement 100 ''a'' 60, OpIncrement 110 ''a'' 60, OpSweep 500,
       OpIncrement 510 ''b'' 60, OpGet 520 ''a'']) < 2 ^ 63
   \<and> (case snd (exec_ops NewMemoryStore
      [OpIncrement 100 ''a'' 60, OpIncrement 110 ''a'' 60, OpSweep 500,
       OpIncrement 510 ''b'' 60, OpGet 520 ''a'']) ''b'' of
        None \<Rightarrow> True | Some None \<Rightarrow> False | Some (Some e) \<Rightarrow> 1 \<le> Count e)
   \<and> list_all (\<lambda>c. 1 \<le> c) (fst (exec_ops NewMemoryStore
      [OpIncrement 100 ''a'' 60, OpIncrement 110 ''a'' 60, OpSweep 500,
       OpIncrement 510 ''b'' 60, OpGet 520 ''a'']))
   \<and> fst (exec_ops NewMemoryStore
      [OpIncrement 100 ''a'' 60, OpIncrement 110 ''a'' 60, OpSweep 500,
       OpIncrement 510 ''b'' 60, OpGet 520 ''a'']) = [1, 2, 1]"
proof -
  let ?ops = "[OpIncrement 100 ''a'' 60, OpIncrement 110 ''a'' 60, OpSweep 500,
       OpIncrement 510 ''b'' 60, OpGet 520 ''a'']"
  have h: "length (filter isIncrement ?ops) < 2 ^ 63"
    by simp
  then have h': "length (filter isIncrement ?ops) < 2 ^ 63
     \<or> (sorted_wrt (<) (IncrementReadings ?ops) \<and> (\<forall>d \<in> set (IncrementTtls ?ops). d < 2 ^ 63 - 1))"
    by (rule disjI1)
  have v: "fst (exec_ops NewMemoryStore ?ops) = [1, 2, 1]"
    by (simp add: MemoryStore_Increment_def newEntry_def cleanupSweep_def NewMemoryStore_def
        Before_def Add_def wrap64_def Let_def)
  from C10_counts_at_least_one [OF h'] h v show ?thesis
    unfolding list_all_iff by blast
qed

text \<open>
  Outside such runs the count can wrap around: of \<open>2 ^ 63\<close> calls for one key that all
  read the same clock value inside its window, the last returns the least \<^verbatim>\<open>int64\<close>.
\<close>

lemma wraparound_at_one_clock_reading:
  "last (fst (exec_ops NewMemoryStore (replicate (2 ^ 63) (OpIncrement 0 ''k'' 1)))) = - (2 ^ 63)"
proof -
  let ?x = "OpIncrement 0 ''k'' 1"
  let ?e = "\<lparr>Count = 1, Expiry = 1\<rparr>"
  let ?s1 = "NewMemoryStore(''k'' := Some (Some ?e))"
  define n :: nat where "n = 2 ^ 63 - 2"
  have n: "int n = 2 ^ 63 - 2"
    by (simp add: n_def)
  have "(2 ^ 63 :: nat) = Suc (n + 1)"
    by (simp add: n_def)
  then have "replicate (2 ^ 63) ?x = replicate (Suc (n + 1)) ?x"
    by (rule arg_cong)
  also have "\<dots> = ?x # replicate n ?x @ [?x]"
    by (simp only: replicate_Suc replicate_add) simp
  finally have split: "replicate (2 ^ 63) ?x = ?x # replicate n ?x @ [?x]" .
  have 1: "MemoryStore_Increment 0 NewMemoryStore ''k'' 1 = ((1, 1, None), ?s1)"
    by (simp add: MemoryStore_Increment_def newEntry_def NewMemoryStore_def Add_def)
  have 2: "exec_ops ?s1 (replicate n ?x)
             = (map (\<lambda>i. Count ?e + 1 + int i) [0..<n],
                ?s1(''k'' := Some (Some (?e\<lparr>Count := Count ?e + int n\<rparr>))))"
    by (rule exec_replicate_live) (simp_all add: n)
  have 3: "fst (fst (MemoryStore_Increment 0 (snd (exec_ops ?s1 (replicate n ?x))) ''k'' 1))
             = - (2 ^ 63)"
    by (simp add: 2 n MemoryStore_Increment_def Before_def wrap64_def)
  show ?thesis
    unfolding split by (simp add: 1 exec_ops_append 3 Let_def)
qed

section \<open>The engine on the in-memory store\<close>

lemma Limiter_Allow_live:
  assumes cfg: "configs client = Some cfg \<or> configs client = None \<and> cfg = DefaultConfig"
    and live: "s (keyForClient client) = Some (Some e)" "ts \<le> Expiry e"
    and range: "- (2 ^ 63) \<le> Count e" "Count e + 1 < 2 ^ 63"
  shows "Limiter_Allow configs (MemoryStore_Increment ts) t s client
     = ((Count e + 1 \<le> Limit cfg,
         (if wrap64 (Limit cfg - (Count e + 1)) < 0 then 0 else wrap64 (Limit cfg - (Count e + 1))),
         (if Expiry e < t then zero_time else Expiry e), None),
        s(keyForClient client := Some (Some (e\<lparr>Count := Count e + 1\<rparr>))))"
proof -
  have w: "wrap64 (Count e + 1) = Count e + 1"
    using range by (intro wrap64_id) (simp add: is_int64_def)
  have c: "(case configs client of Some c \<Rightarrow> c | None \<Rightarrow> DefaultConfig) = cfg"
    using cfg by auto
  have i: "MemoryStore_Increment ts s (keyForClient client) (ClientConfig.Window cfg)
      = ((Count e + 1, Expiry e, None), s(keyForClient client := Some (Some (e\<lparr>Count := Count e + 1\<rparr>))))"
    using live w by (simp add: MemoryStore_Increment_def Before_def Let_def)
  show ?thesis
    unfolding Limiter_Allow_def c Let_def i by (simp add: Before_def)
qed

lemma Limiter_Allow_fresh:
  assumes cfg: "configs client = Some cfg \<or> configs client = None \<and> cfg = DefaultConfig"
    and stale: "s (keyForClient client) = None \<or> s (keyForClient client) = Some None
       \<or> (\<exists>e. s (keyForClient client) = Some (Some e) \<and> Expiry e < ts)"
  shows "Limiter_Allow configs (MemoryStore_Increment ts) t s client
     = ((1 \<le> Limit cfg,
         (if wrap64 (Limit cfg - 1) < 0 then 0 else wrap64 (Limit cfg - 1)),
         (if ts + ClientConfig.Window cfg < t then zero_time else ts + ClientConfig.Window cfg), None),
        s(keyForClient client := Some (Some \<lparr>Count = 1, Expiry = ts + ClientConfig.Window cfg\<rparr>)))"
proof -
  have c: "(case configs client of Some c \<Rightarrow> c | None \<Rightarrow> DefaultConfig) = cfg"
    using cfg by auto
  have i: "MemoryStore_Increment ts s (keyForClient client) (ClientConfig.Window cfg)
      = ((1, ts + ClientConfig.Window cfg, None),
         s(keyForClient client := Some (Some \<lparr>Count = 1, Expiry = ts + ClientConfig.Window cfg\<rparr>)))"
    using stale by (auto simp: MemoryStore_Increment_def newEntry_def Before_def Add_def Let_def)
  show ?thesis
    unfolding Limiter_Allow_def c Let_def i by (simp add: Before_def)
qed

lemma Allow_calls_live:
  assumes cfg: "configs client = Some cfg \<or> configs client = None \<and> cfg = DefaultConfig"
    and live: "s (keyForClient client) = Some (Some e)" "\<forall>t \<in> set calls. snd t \<le> Expiry e"
    and range: "- (2 ^ 63) \<le> Count e" "Count e + int (length calls) < 2 ^ 63"
  shows "map verdict (fst (Allow_calls configs s client calls))
     = map (\<lambda>i. (Count e + 1 + int i \<le> Limit cfg,
                 (if wrap64 (Limit cfg - (Count e + 1 + int i)) < 0 then 0
                  else wrap64 (Limit cfg - (Count e + 1 + int i))), None)) [0..<length calls]
     \<and> snd (Allow_calls configs s client calls)
        = s(keyForClient client := Some (Some (e\<lparr>Count := Count e + int (length calls)\<rparr>)))"
  using live range
proof (induction calls arbitrary: s e)
  case Nil
  then show ?case by (simp add: fun_upd_idem)
next
  case (Cons t calls)
  let ?e = "e\<lparr>Count := Count e + 1\<rparr>"
  let ?s = "s(keyForClient client := Some (Some ?e))"
  have 1: "Limiter_Allow configs (MemoryStore_Increment (snd t)) (fst t) s client
     = ((Count e + 1 \<le> Limit cfg,
         (if wrap64 (Limit cfg - (Count e + 1)) < 0 then 0 else wrap64 (Limit cfg - (Count e + 1))),
         (if Expiry e < fst t then zero_time else Expiry e), None), ?s)"
    by (rule Limiter_Allow_live [where configs = configs and client = client and cfg = cfg and e = e])
      (use cfg Cons.prems in simp_all)
  have "map verdict (fst (Allow_calls configs ?s client calls))
     = map (\<lambda>i. (Count ?e + 1 + int i \<le> Limit cfg,
                 (if wrap64 (Limit cfg - (Count ?e + 1 + int i)) < 0 then 0
                  else wrap64 (Limit cfg - (Count ?e + 1 + int i))), None)) [0..<length calls]
     \<and> snd (Allow_calls configs ?s client calls)
        = ?s(keyForClient client := Some (Some (?e\<lparr>Count := Count ?e + int (length calls)\<rparr>)))"
    using Cons.prems by (intro Cons.IH) simp_all
  then have rest: "map verdict (fst (Allow_calls configs ?s client calls))
     = map (\<lambda>i. (Count e + 1 + int (Suc i) \<le> Limit cfg,
                 (if wrap64 (Limit cfg - (Count e + 1 + int (Suc i))) < 0 then 0
                  else wrap64 (Limit cfg - (Count e + 1 + int (Suc i)))), None)) [0..<length calls]"
    and st: "snd (Allow_calls configs ?s client calls)
        = s(keyForClient client := Some (Some (e\<lparr>Count := Count e + int (length (t # calls))\<rparr>)))"
    by (simp_all add: ac_simps)
  have "map verdict (fst (Allow_calls configs s client (t # calls)))
     = (Count e + 1 \<le> Limit cfg,
         (if wrap64 (Limit cfg - (Count e + 1)) < 0 then 0 else wrap64 (Limit cfg - (Count e + 1))),
         None) # map verdict (fst (Allow_calls configs ?s client calls))"
    by (simp add: 1 Let_def verdict_def)
  also have "\<dots> = map (\<lambda>i. (Count e + 1 + int i \<le> Limit cfg,
                 (if wrap64 (Limit cfg - (Count e + 1 + int i)) < 0 then 0
                  else wrap64 (Limit cfg - (Count e + 1 + int i))), None)) [0..<length (t # calls)]"
    unfolding rest by (simp add: map_upt_Suc del: upt_Suc)
  finally have a: "map verdict (fst (Allow_calls configs s client (t # calls)))
     = map (\<lambda>i. (Count e + 1 + int i \<le> Limit cfg,
                 (if wrap64 (Limit cfg - (Count e + 1 + int i)) < 0 then 0
                  else wrap64 (Limit cfg - (Count e + 1 + int i))), None)) [0..<length (t # calls)]" .
  have b: "snd (Allow_calls configs s client (t # calls))
        = s(keyForClient client := Some (Some (e\<lparr>Count := Count e + int (length (t # calls))\<rparr>)))"
    using st by (simp add: 1 Let_def)
  from a b show ?case by blast
qed

lemma clamp_max: "is_int64 x \<Longrightarrow> (if wrap64 x < 0 then 0 else wrap64 x) = max 0 x"
  by (simp add: wrap64_id)

text \<open>
  Consecutive calls inside one window: either the first call opens the window (the key is
  absent, nil or expired, and \<open>seen = 0\<close>), or the window is open with the count
  \<open>seen\<close> and the expiry \<open>E\<close>. As long as the count does not wrap, the call that
  brings it to \<open>c\<close> is decided on \<open>c\<close>, and the store ends with the count of all calls.
\<close>

lemma Allow_calls_window:
  assumes cfg: "configs client = Some cfg \<or> configs client = None \<and> cfg = DefaultConfig"
    and start: "(seen = 0 \<and> E = snd t + ClientConfig.Window cfg
         \<and> (s (keyForClient client) = None \<or> s (keyForClient client) = Some None
            \<or> (\<exists>e. s (keyForClient client) = Some (Some e) \<and> Expiry e < snd t)))
       \<or> (0 \<le> seen \<and> snd t \<le> E \<and> s (keyForClient client) = Some (Some \<lparr>Count = seen, Expiry = E\<rparr>))"
    and window: "\<forall>u \<in> set calls. snd u \<le> E"
    and few: "seen + int (length (t # calls)) < 2 ^ 63"
  shows "map verdict (fst (Allow_calls configs s client (t # calls)))
           = map (\<lambda>i. (seen + int i + 1 \<le> Limit cfg,
                       (if wrap64 (Limit cfg - (seen + int i + 1)) < 0 then 0
                        else wrap64 (Limit cfg - (seen + int i + 1))), None))
               [0..<length (t # calls)]
         \<and> snd (Allow_calls configs s client (t # calls))
           = s(keyForClient client := Some (Some \<lparr>Count = seen + int (length (t # calls)), Expiry = E\<rparr>))"
  using start
proof
  let ?L = "Limit cfg"
  assume opens: "seen = 0 \<and> E = snd t + ClientConfig.Window cfg
       \<and> (s (keyForClient client) = None \<or> s (keyForClient client) = Some None
          \<or> (\<exists>e. s (keyForClient client) = Some (Some e) \<and> Expiry e < snd t))"
  let ?e = "\<lparr>Count = 1, Expiry = E\<rparr>"
  let ?s = "s(keyForClient client := Some (Some ?e))"
  have 1: "Limiter_Allow configs (MemoryStore_Increment (snd t)) (fst t) s client
     = ((1 \<le> ?L, (if wrap64 (?L - 1) < 0 then 0 else wrap64 (?L - 1)),
         (if snd t + ClientConfig.Window cfg < fst t then zero_time
          else snd t + ClientConfig.Window cfg), None), ?s)"
    using opens
    by (simp add: Limiter_Allow_fresh [where configs = configs and client = client and cfg = cfg,
          OF cfg])
  have 2: "map verdict (fst (Allow_calls configs ?s client calls))
     = map (\<lambda>i. (Count ?e + 1 + int i \<le> ?L,
                 (if wrap64 (?L - (Count ?e + 1 + int i)) < 0 then 0
                  else wrap64 (?L - (Count ?e + 1 + int i))), None)) [0..<length calls]
     \<and> snd (Allow_calls configs ?s client calls)
       = ?s(keyForClient client := Some (Some (?e\<lparr>Count := Count ?e + int (length calls)\<rparr>)))"
    by (rule Allow_calls_live [where cfg = cfg and e = ?e])
      (use cfg window few opens in simp_all)
  have "map verdict (fst (Allow_calls configs s client (t # calls)))
     = (1 \<le> ?L, (if wrap64 (?L - 1) < 0 then 0 else wrap64 (?L - 1)), None)
        # map verdict (fst (Allow_calls configs ?s client calls))"
    by (simp add: 1 Let_def verdict_def)
  also have "\<dots> = map (\<lambda>i. (seen + int i + 1 \<le> ?L,
                       (if wrap64 (?L - (seen + int i + 1)) < 0 then 0
                        else wrap64 (?L - (seen + int i + 1))), None))
               [0..<length (t # calls)]"
    using 2 opens by (simp add: map_upt_Suc ac_simps del: upt_Suc)
  finally have a: "map verdict (fst (Allow_calls configs s client (t # calls)))
     = map (\<lambda>i. (seen + int i + 1 \<le> ?L,
                       (if wrap64 (?L - (seen + int i + 1)) < 0 then 0
                        else wrap64 (?L - (seen + int i + 1))), None))
               [0..<length (t # calls)]" .
  have b: "snd (Allow_calls configs s client (t # calls))
           = s(keyForClient client := Some (Some \<lparr>Count = seen + int (length (t # calls)), Expiry = E\<rparr>))"
    using 2 opens by (simp add: 1 Let_def ac_simps)
  from a b show ?thesis by blast
next
  assume live: "0 \<le> seen \<and> snd t \<le> E
      \<and> s (keyForClient client) = Some (Some \<lparr>Count = seen, Expiry = E\<rparr>)"
  let ?e = "\<lparr>Count = seen, Expiry = E\<rparr>"
  have "map verdict (fst (Allow_calls configs s client (t # calls)))
     = map (\<lambda>i. (Count ?e + 1 + int i \<le> Limit cfg,
                 (if wrap64 (Limit cfg - (Count ?e + 1 + int i)) < 0 then 0
                  else wrap64 (Limit cfg - (Count ?e + 1 + int i))), None)) [0..<length (t # calls)]
     \<and> snd (Allow_calls configs s client (t # calls))
       = s(keyForClient client := Some (Some (?e\<lparr>Count := Count ?e + int (length (t # calls))\<rparr>)))"
    by (rule Allow_calls_live [where cfg = cfg and e = ?e])
      (use cfg window few live in simp_all)
  then show ?thesis
    by (simp add: ac_simps del: upt_Suc)
qed

lemma advancing_length:
  fixes x b :: int
  assumes "sorted_wrt (<) (x # xs)" and "\<forall>y \<in> set xs. y \<le> b"
  shows "int (length (x # xs)) \<le> max 1 (b - x + 1)"
  using assms
proof (induction xs arbitrary: x)
  case Nil
  then show ?case by simp
next
  case (Cons y ys)
  then have "int (length (y # ys)) \<le> max 1 (b - y + 1)"
    by (intro Cons.IH) simp_all
  moreover from Cons.prems have "x < y" "y \<le> b"
    by simp_all
  ultimately show ?case by simp
qed

text \<open>
  C3: take consecutive successful \<open>Allow\<close> calls of one client on the in-memory store, all
  inside one window: either the first call opens the window (\<open>seen = 0\<close>), or the
  window is open with the count \<open>seen \<ge> 0\<close>; every other call comes at or before the
  expiry \<open>E\<close>. The run is one the program can perform: the cumulative count stays below
  \<open>2 ^ 63\<close>, or the store's clock readings advance from call to call and the count so
  far plus the nanoseconds left in the window is below \<open>2 ^ 63 - 1\<close> (as when the
  window opens under any ttl but the greatest \<^verbatim>\<open>time.Duration\<close>). The limit is one for
  which limit minus the cumulative count is no less than \<open>- (2 ^ 63)\<close>, as every limit
  from 0 on is. Then the call that brings the count to \<open>c\<close> is allowed exactly when
  \<open>c \<le> limit\<close> and leaves \<open>max 0 (limit - c)\<close>: the remaining values never increase
  and are never negative, and \<open>allowed\<close> turns false exactly at the first call whose
  cumulative count exceeds the limit.
\<close>

theorem C3_window_run:
  assumes cfg: "configs client = Some cfg \<or> configs client = None \<and> cfg = DefaultConfig"
    and start: "(seen = 0 \<and> E = snd t + ClientConfig.Window cfg
         \<and> (s (keyForClient client) = None \<or> s (keyForClient client) = Some None
            \<or> (\<exists>e. s (keyForClient client) = Some (Some e) \<and> Expiry e < snd t)))
       \<or> (0 \<le> seen \<and> snd t \<le> E \<and> s (keyForClient client) = Some (Some \<lparr>Count = seen, Expiry = E\<rparr>))"
    and window: "\<forall>u \<in> set calls. snd u \<le> E"
    and real: "seen + int (length (t # calls)) < 2 ^ 63
       \<or> (sorted_wrt (<) (map snd (t # calls)) \<and> seen + (E - snd t) < 2 ^ 63 - 1)"
    and limit: "Limit cfg < 2 ^ 63" "- (2 ^ 63) \<le> Limit cfg - (seen + int (length (t # calls)))"
  shows "map verdict (fst (Allow_calls configs s client (t # calls)))
           = map (\<lambda>i. (seen + int i + 1 \<le> Limit cfg, max 0 (Limit cfg - (seen + int i + 1)), None))
               [0..<length (t # calls)]
         \<and> sorted_wrt (\<lambda>a b. b \<le> a) (map (fst \<circ> snd) (fst (Allow_calls configs s client (t # calls))))
         \<and> (\<forall>d \<in> set (fst (Allow_calls configs s client (t # calls))). 0 \<le> fst (snd d))"
proof -
  let ?L = "Limit cfg"
  let ?ds = "fst (Allow_calls configs s client (t # calls))"
  let ?raw = "\<lambda>i. (seen + int i + 1 \<le> ?L,
      (if wrap64 (?L - (seen + int i + 1)) < 0 then 0 else wrap64 (?L - (seen + int i + 1))), None)"
  from start have nonneg: "0 \<le> seen"
    by auto
  from real have few: "seen + int (length (t # calls)) < 2 ^ 63"
  proof
    assume "sorted_wrt (<) (map snd (t # calls)) \<and> seen + (E - snd t) < 2 ^ 63 - 1"
    then have adv: "sorted_wrt (<) (snd t # map snd calls)" and left: "seen + (E - snd t) < 2 ^ 63 - 1"
      by simp_all
    from window have "\<forall>y \<in> set (map snd calls). y \<le> E"
      by simp
    from advancing_length [OF adv this] have "int (length (t # calls)) \<le> max 1 (E - snd t + 1)"
      by simp
    moreover from start left have "seen < 2 ^ 63 - 1"
      by auto
    ultimately show ?thesis
      using left by simp
  qed
  have r: "is_int64 (?L - (seen + int i + 1))" if "i < length (t # calls)" for i
    using that limit nonneg by (simp add: is_int64_def)
  have raw: "map verdict ?ds = map ?raw [0..<length (t # calls)]"
    using Allow_calls_window [where configs = configs and client = client and cfg = cfg
        and s = s and seen = seen and E = E and t = t and calls = calls, OF cfg start window few]
    by blast
  have "map ?raw [0..<length (t # calls)]
      = map (\<lambda>i. (seen + int i + 1 \<le> ?L, max 0 (?L - (seen + int i + 1)), None))
               [0..<length (t # calls)]"
  proof (rule map_cong [OF refl])
    fix i
    assume "i \<in> set [0..<length (t # calls)]"
    then have "i < length (t # calls)"
      by auto
    from clamp_max [OF r [OF this]]
    show "?raw i = (seen + int i + 1 \<le> ?L, max 0 (?L - (seen + int i + 1)), None)"
      by simp
  qed
  with raw have a: "map verdict ?ds
      = map (\<lambda>i. (seen + int i + 1 \<le> ?L, max 0 (?L - (seen + int i + 1)), None))
          [0..<length (t # calls)]"
    by simp
  have "map (fst \<circ> snd) ?ds = map (fst \<circ> snd) (map verdict ?ds)"
    by (simp add: verdict_def comp_def)
  also have "\<dots> = map (\<lambda>i. max 0 (?L - (seen + int i + 1))) [0..<length (t # calls)]"
    unfolding a by (simp add: comp_def)
  finally have b: "map (fst \<circ> snd) ?ds
      = map (\<lambda>i. max 0 (?L - (seen + int i + 1))) [0..<length (t # calls)]" .
  have c: "sorted_wrt (\<lambda>a b. b \<le> a) (map (fst \<circ> snd) ?ds)"
    unfolding b by (auto simp: sorted_wrt_iff_nth_less simp del: upt_Suc)
  have "\<forall>x \<in> set (map (fst \<circ> snd) ?ds). 0 \<le> x"
    unfolding b by (auto simp del: upt_Suc)
  then have d: "\<forall>d \<in> set ?ds. 0 \<le> fst (snd d)"
    by simp
  from a c d show ?thesis by blast
qed

text \<open>
  The witness: three calls of client-2 (limit 2, window 60 s) on a fresh store, and two
  more calls inside the window they opened.
\<close>

theorem C3_window_run_witness:
  "map verdict (fst (Allow_calls Clients NewMemoryStore ''client-2''
      [(1000, 1001), (2000, 2001), (3000, 3001)]))
     = [(True, 1, None), (True, 0, None), (False, 0, None)]
   \<and> map verdict (fst (Allow_calls Clients
        (NewMemoryStore(keyForClient ''client-2'' := Some (Some \<lparr>Count = 3, Expiry = 60000001001\<rparr>)))
        ''client-2'' [(4000, 4001), (60000001001, 60000001001)]))
     = [(False, 0, None), (False, 0, None)]"
proof -
  let ?calls = "[(2000, 2001), (3000, 3001)] :: (time \<times> time) list"
  let ?cfg = "\<lparr>Limit = 2, Window = 60 * Second\<rparr>"
  have cfg: "Clients ''client-2'' = Some ?cfg \<or> Clients ''client-2'' = None \<and> ?cfg = DefaultConfig"
    by (simp add: Clients_def)
  have start: "(0 = (0 :: int) \<and> 60000001001 = snd (1000 :: time, 1001 :: time) + ClientConfig.Window ?cfg
         \<and> (NewMemoryStore (keyForClient ''client-2'') = None
            \<or> NewMemoryStore (keyForClient ''client-2'') = Some None
            \<or> (\<exists>e. NewMemoryStore (keyForClient ''client-2'') = Some (Some e)
                 \<and> Expiry e < snd (1000 :: time, 1001 :: time))))
       \<or> ((0 :: int) \<le> 0 \<and> snd (1000 :: time, 1001 :: time) \<le> 60000001001
          \<and> NewMemoryStore (keyForClient ''client-2'') = Some (Some \<lparr>Count = 0, Expiry = 60000001001\<rparr>))"
    by (simp add: NewMemoryStore_def Second_def)
  have window: "\<forall>u \<in> set ?calls. snd u \<le> 60000001001"
    by simp
  have real: "0 + int (length ((1000 :: time, 1001 :: time) # ?calls)) < 2 ^ 63
       \<or> (sorted_wrt (<) (map snd ((1000 :: time, 1001 :: time) # ?calls))
          \<and> 0 + (60000001001 - snd (1000 :: time, 1001 :: time)) < 2 ^ 63 - 1)"
    by simp
  have l1: "Limit ?cfg < 2 ^ 63"
    by simp
  have l2: "- (2 ^ 63) \<le> Limit ?cfg - (0 + int (length ((1000 :: time, 1001 :: time) # ?calls)))"
    by simp
  from C3_window_run [where configs = Clients and client = "''client-2''" and s = NewMemoryStore
      and cfg = ?cfg and t = "(1000, 1001)" and calls = ?calls and seen = 0 and E = 60000001001,
      OF cfg start window real l1 l2]
  have a: "map verdict (fst (Allow_calls Clients NewMemoryStore ''client-2''
      [(1000, 1001), (2000, 2001), (3000, 3001)]))
     = [(True, 1, None), (True, 0, None), (False, 0, None)]"
    by (simp add: upt_conv_Cons)
  let ?s = "NewMemoryStore(keyForClient ''client-2'' := Some (Some \<lparr>Count = 3, Expiry = 60000001001\<rparr>))"
  let ?more = "[(60000001001, 60000001001)] :: (time \<times> time) list"
  have start': "(3 = (0 :: int) \<and> 60000001001 = snd (4000 :: time, 4001 :: time) + ClientConfig.Window ?cfg
         \<and> (?s (keyForClient ''client-2'') = None \<or> ?s (keyForClient ''client-2'') = Some None
            \<or> (\<exists>e. ?s (keyForClient ''client-2'') = Some (Some e)
                 \<and> Expiry e < snd (4000 :: time, 4001 :: time))))
       \<or> ((0 :: int) \<le> 3 \<and> snd (4000 :: time, 4001 :: time) \<le> 60000001001
          \<and> ?s (keyForClient ''client-2'') = Some (Some \<lparr>Count = 3, Expiry = 60000001001\<rparr>))"
    by simp
  have window': "\<forall>u \<in> set ?more. snd u \<le> 60000001001"
    by simp
  have real': "3 + int (length ((4000 :: time, 4001 :: time) # ?more)) < 2 ^ 63
       \<or> (sorted_wrt (<) (map snd ((4000 :: time, 4001 :: time) # ?more))
          \<and> 3 + (60000001001 - snd (4000 :: time, 4001 :: time)) < 2 ^ 63 - 1)"
    by simp
  have l2': "- (2 ^ 63) \<le> Limit ?cfg - (3 + int (length ((4000 :: time, 4001 :: time) # ?more)))"
    by simp
  from C3_window_run [where configs = Clients and client = "''client-2''" and s = ?s
      and cfg = ?cfg and t = "(4000, 4001)" and calls = ?more and seen = 3 and E = 60000001001,
      OF cfg start' window' real' l1 l2']
  have b: "map verdict (fst (Allow_calls Clients ?s ''client-2''
      [(4000, 4001), (60000001001, 60000001001)]))
     = [(False, 0, None), (False, 0, None)]"
    by (simp add: upt_conv_Cons)
  from a b show ?thesis by blast
qed


section \<open>Decisions, configuration and storage errors\<close>





text \<open>
  The engine over a Redis client checks the configuration before anything else: a limit
  with non-positive requests or window is an error, and the backend is not touched.
\<close>

lemma fixedWindow_Allow_invalid_config:
  assumes "Requests (GetLimit rl clientID) \<le> 0 \<or> ClientLimit.Window (GetLimit rl clientID) \<le> 0"
  shows "fixedWindow_Allow redis rl now r clientID
     = ((False, 0, 0, Some (Errorf (''invalid limit configuration for client '' @ clientID))), r)"
  using assms by (simp add: fixedWindow_Allow_def)

text \<open>
  C5 fails for the engine over a Store, which never checks the configuration. Under a
  limit of 0 the first call of a client is denied with a nil error; under a window of 0
  and a limit of 1, three calls in a row are all allowed with a nil error.
\<close>

theorem C5_Limiter_accepts_malformed_config:
  "fst (Limiter_Allow [''c1'' \<mapsto> \<lparr>Limit = 0, Window = 60 * Second\<rparr>]
       (MemoryStore_Increment 1000) 1000 NewMemoryStore ''c1'') = (False, 0, 60000001000, None)
   \<and> map verdict (fst (Allow_calls [''c1'' \<mapsto> \<lparr>Limit = 1, Window = 0\<rparr>] NewMemoryStore ''c1''
       [(1000, 1000), (2000, 2000), (3000, 3000)]))
     = [(True, 0, None), (True, 0, None), (True, 0, None)]"
  by (simp add: Limiter_Allow_def MemoryStore_Increment_def newEntry_def NewMemoryStore_def
      keyForClient_def Before_def Add_def Second_def wrap64_def verdict_def Let_def)

text \<open>
  C6, as the code has it: each engine has one policy of its own for a storage error. The
  engine over a Store fails open: it returns \<open>allowed = true\<close>, the limit as the remaining
  quota, the zero time and the store's error. The engine over a Redis client fails
  closed: when INCR fails, or when INCR returns 1 and EXPIRE fails, it returns
  \<open>allowed = false\<close>, zeros and the client's error. The error is never nil.
\<close>

theorem C6_failure_policies:
  "(\<forall>c x err st'.
      (configs client = Some cfg \<or> configs client = None \<and> cfg = DefaultConfig)
      \<and> storeIncrement st (keyForClient client) (ClientConfig.Window cfg) = ((c, x, Some err), st')
      \<longrightarrow> Limiter_Allow configs storeIncrement now st client
            = ((True, Limit cfg, zero_time, Some err), st'))
   \<and> (\<forall>c err r1.
      0 < Requests (GetLimit rl clientID) \<and> 0 < ClientLimit.Window (GetLimit rl clientID)
      \<and> Incr redis r (generateKey clientID now (ClientLimit.Window (GetLimit rl clientID)))
           = ((c, Some err), r1)
      \<longrightarrow> fixedWindow_Allow redis rl now r clientID = ((False, 0, 0, Some err), r1))
   \<and> (\<forall>b err r1 r2.
      0 < Requests (GetLimit rl clientID) \<and> 0 < ClientLimit.Window (GetLimit rl clientID)
      \<and> Incr redis r (generateKey clientID now (ClientLimit.Window (GetLimit rl clientID)))
           = ((1, None), r1)
      \<and> Expire redis r1 (generateKey clientID now (ClientLimit.Window (GetLimit rl clientID)))
           (ClientLimit.Window (GetLimit rl clientID)) = ((b, Some err), r2)
      \<longrightarrow> fixedWindow_Allow redis rl now r clientID = ((False, 0, 0, Some err), r2))"
proof (intro conjI allI impI)
  fix c x err st'
  assume h: "(configs client = Some cfg \<or> configs client = None \<and> cfg = DefaultConfig)
      \<and> storeIncrement st (keyForClient client) (ClientConfig.Window cfg) = ((c, x, Some err), st')"
  then have c: "(case configs client of Some c \<Rightarrow> c | None \<Rightarrow> DefaultConfig) = cfg"
    by auto
  show "Limiter_Allow configs storeIncrement now st client = ((True, Limit cfg, zero_time, Some err), st')"
    unfolding Limiter_Allow_def c Let_def using h by simp
next
  fix c err r1
  assume "0 < Requests (GetLimit rl clientID) \<and> 0 < ClientLimit.Window (GetLimit rl clientID)
      \<and> Incr redis r (generateKey clientID now (ClientLimit.Window (GetLimit rl clientID)))
           = ((c, Some err), r1)"
  then show "fixedWindow_Allow redis rl now r clientID = ((False, 0, 0, Some err), r1)"
    by (simp add: fixedWindow_Allow_def Let_def)
next
  fix b err r1 r2
  assume "0 < Requests (GetLimit rl clientID) \<and> 0 < ClientLimit.Window (GetLimit rl clientID)
      \<and> Incr redis r (generateKey clientID now (ClientLimit.Window (GetLimit rl clientID)))
           = ((1, None), r1)
      \<and> Expire redis r1 (generateKey clientID now (ClientLimit.Window (GetLimit rl clientID)))
           (ClientLimit.Window (GetLimit rl clientID)) = ((b, Some err), r2)"
  then show "fixedWindow_Allow redis rl now r clientID = ((False, 0, 0, Some err), r2)"
    by (simp add: fixedWindow_Allow_def Let_def)
qed

text \<open>
  The witness: the failing store of the engine's tests, and a Redis client that refuses
  every command.
\<close>

theorem C6_failure_policies_witness:
  "Limiter_Allow Clients mockStoreError_Increment 1000 () ''client-1''
     = ((True, 5, zero_time, Some (Errorf ''mock increment error'')), ())
   \<and> fixedWindow_Allow unreachableRedis (NewRateLimiter \<lparr>Requests = 5, Window = 60 * Second\<rparr>)
        1000 newMockRedis ''client-1''
     = ((False, 0, 0, Some (Errorf ''connection refused'')), newMockRedis)"
proof -
  let ?cfg = "\<lparr>Limit = 5, Window = 60 * Second\<rparr>"
  let ?rl = "NewRateLimiter \<lparr>Requests = 5, Window = 60 * Second\<rparr>"
  have a: "(Clients ''client-1'' = Some ?cfg \<or> Clients ''client-1'' = None \<and> ?cfg = DefaultConfig)
      \<and> mockStoreError_Increment () (keyForClient ''client-1'') (ClientConfig.Window ?cfg)
          = ((0, zero_time, Some (Errorf ''mock increment error'')), ())"
    by (simp add: Clients_def mockStoreError_Increment_def)
  have b: "0 < Requests (GetLimit ?rl ''client-1'') \<and> 0 < ClientLimit.Window (GetLimit ?rl ''client-1'')
      \<and> Incr unreachableRedis newMockRedis
            (generateKey ''client-1'' 1000 (ClientLimit.Window (GetLimit ?rl ''client-1'')))
           = ((0, Some (Errorf ''connection refused'')), newMockRedis)"
    by (simp add: GetLimit_def NewRateLimiter_def Second_def unreachableRedis_def)
  from C6_failure_policies [where configs = Clients and client = "''client-1''" and cfg = ?cfg
      and storeIncrement = mockStoreError_Increment and st = "()" and now = 1000
      and rl = ?rl and clientID = "''client-1''" and redis = unreachableRedis and r = newMockRedis]
    a b
  show ?thesis
    by (auto simp del: One_nat_def)
qed

text \<open>
  C6 as stated fails: on a storage error the engine over a Store allows the request and
  the engine over a Redis client denies it.
\<close>

theorem C6_counterexample:
  "fst (Limiter_Allow Clients mockStoreError_Increment 1000 () ''client-1'')
     = (True, 5, 0, Some (Errorf ''mock increment error''))
   \<and> fst (fixedWindow_Allow unreachableRedis (NewRateLimiter \<lparr>Requests = 5, Window = 60 * Second\<rparr>)
        1000 newMockRedis ''client-1'')
     = (False, 0, 0, Some (Errorf ''connection refused''))"
  by (simp add: Limiter_Allow_def mockStoreError_Increment_def Clients_def zero_time_def
      fixedWindow_Allow_def GetLimit_def NewRateLimiter_def unreachableRedis_def Second_def Let_def)

text \<open>
  A client without an entry on the in-memory store: the calls of one window count up from
  1 under the default limit of 100.
\<close>

lemma Limiter_Allow_default_run:
  assumes none: "configs client = None"
    and opens: "s (''rate:'' @ client) = None \<or> s (''rate:'' @ client) = Some None
       \<or> (\<exists>e. s (''rate:'' @ client) = Some (Some e) \<and> Expiry e < snd t)"
    and window: "\<forall>u \<in> set calls. snd u \<le> snd t + 60 * Second"
    and real: "int (length (t # calls)) < 2 ^ 63 \<or> sorted_wrt (<) (map snd (t # calls))"
  shows "map verdict (fst (Allow_calls configs s client (t # calls)))
            = map (\<lambda>i. (int i + 1 \<le> 100, max 0 (100 - (int i + 1)), None)) [0..<length (t # calls)]
         \<and> snd (Allow_calls configs s client (t # calls)) (''rate:'' @ client)
            = Some (Some \<lparr>Count = int (length (t # calls)), Expiry = snd t + 60 * Second\<rparr>)"
proof -
  let ?E = "snd t + 60 * Second"
  have cfg: "configs client = Some DefaultConfig \<or> configs client = None \<and> DefaultConfig = DefaultConfig"
    using none by simp
  have start: "(0 = (0 :: int) \<and> ?E = snd t + ClientConfig.Window DefaultConfig
         \<and> (s (keyForClient client) = None \<or> s (keyForClient client) = Some None
            \<or> (\<exists>e. s (keyForClient client) = Some (Some e) \<and> Expiry e < snd t)))
       \<or> ((0 :: int) \<le> 0 \<and> snd t \<le> ?E \<and> s (keyForClient client) = Some (Some \<lparr>Count = 0, Expiry = ?E\<rparr>))"
    using opens by (simp add: keyForClient_def DefaultConfig_def)
  from real have few: "0 + int (length (t # calls)) < 2 ^ 63"
  proof
    assume "sorted_wrt (<) (map snd (t # calls))"
    then have adv: "sorted_wrt (<) (snd t # map snd calls)"
      by simp
    from window have "\<forall>y \<in> set (map snd calls). y \<le> ?E"
      by simp
    from advancing_length [OF adv this] show ?thesis
      by (simp add: Second_def)
  qed simp
  note run = Allow_calls_window [where configs = configs and client = client and cfg = DefaultConfig
      and s = s and seen = 0 and E = ?E and t = t and calls = calls, OF cfg start window few]
  have r: "is_int64 (100 - (int i + 1))" if "i < length (t # calls)" for i
    using that few by (simp add: is_int64_def)
  have "map (\<lambda>i. (0 + int i + 1 \<le> Limit DefaultConfig,
                       (if wrap64 (Limit DefaultConfig - (0 + int i + 1)) < 0 then 0
                        else wrap64 (Limit DefaultConfig - (0 + int i + 1))), None :: error option))
               [0..<length (t # calls)]
      = map (\<lambda>i. (int i + 1 \<le> 100, max 0 (100 - (int i + 1)), None)) [0..<length (t # calls)]"
  proof (rule map_cong [OF refl])
    fix i
    assume "i \<in> set [0..<length (t # calls)]"
    then have "i < length (t # calls)"
      by auto
    from r [OF this] have "wrap64 (100 - (int i + 1)) = 100 - (int i + 1)"
      by (rule wrap64_id)
    then show "(0 + int i + 1 \<le> Limit DefaultConfig,
                       (if wrap64 (Limit DefaultConfig - (0 + int i + 1)) < 0 then 0
                        else wrap64 (Limit DefaultConfig - (0 + int i + 1))), None :: error option)
        = (int i + 1 \<le> 100, max 0 (100 - (int i + 1)), None)"
      by (simp add: DefaultConfig_def)
  qed
  with run have a: "map verdict (fst (Allow_calls configs s client (t # calls)))
            = map (\<lambda>i. (int i + 1 \<le> 100, max 0 (100 - (int i + 1)), None)) [0..<length (t # calls)]"
    by simp
  from run have b: "snd (Allow_calls configs s client (t # calls)) (''rate:'' @ client)
            = Some (Some \<lparr>Count = int (length (t # calls)), Expiry = snd t + 60 * Second\<rparr>)"
    by (simp add: keyForClient_def)
  from a b show ?thesis by blast
qed

text \<open>
  The engine over a Redis client under a well-formed limit, when INCR and, after a
  count of 1, EXPIRE succeed; and its first call for a key that \<open>mockRedis\<close> does not
  hold.
\<close>

lemma fixedWindow_Allow_served:
  assumes "0 < Requests (GetLimit rl clientID)" and "0 < ClientLimit.Window (GetLimit rl clientID)"
    and "Incr redis r (generateKey clientID now (ClientLimit.Window (GetLimit rl clientID)))
           = ((count, None), r1)"
    and "if count = 1
         then Expire redis r1 (generateKey clientID now (ClientLimit.Window (GetLimit rl clientID)))
                (ClientLimit.Window (GetLimit rl clientID)) = ((b, None), r2)
         else r2 = r1"
  shows "fixedWindow_Allow redis rl now r clientID
     = ((count \<le> Requests (GetLimit rl clientID),
         (if wrap64 (Requests (GetLimit rl clientID) - count) < 0 then 0
          else wrap64 (Requests (GetLimit rl clientID) - count)),
         Sub (Add (windowStart now (ClientLimit.Window (GetLimit rl clientID)))
                (ClientLimit.Window (GetLimit rl clientID))) now, None), r2)"
  unfolding fixedWindow_Allow_def Let_def using assms by (auto split: if_splits)

lemma fixedWindow_Allow_first_on_mock:
  assumes "0 < Requests (GetLimit rl clientID)" and "Requests (GetLimit rl clientID) < 2 ^ 63"
    and "0 < ClientLimit.Window (GetLimit rl clientID)"
    and "m (generateKey clientID now (ClientLimit.Window (GetLimit rl clientID))) = None"
  shows "fixedWindow_Allow (mockRedis tm) rl now m clientID
     = ((True, Requests (GetLimit rl clientID) - 1,
         Sub (Add (windowStart now (ClientLimit.Window (GetLimit rl clientID)))
                (ClientLimit.Window (GetLimit rl clientID))) now, None),
        m(generateKey clientID now (ClientLimit.Window (GetLimit rl clientID))
            \<mapsto> \<lparr>m_count = 1, m_ttl = tm + ClientLimit.Window (GetLimit rl clientID)\<rparr>))"
proof -
  let ?W = "ClientLimit.Window (GetLimit rl clientID)"
  let ?key = "generateKey clientID now ?W"
  have i: "Incr (mockRedis tm) m ?key = ((1, None), m(?key \<mapsto> \<lparr>m_count = 1, m_ttl = zero_time\<rparr>))"
    using assms(4)
    by (simp add: mockRedis_def mock_Incr_def mock_lookup_def IsZero_def wrap64_def)
  have x: "if (1 :: int) = 1
      then Expire (mockRedis tm) (m(?key \<mapsto> \<lparr>m_count = 1, m_ttl = zero_time\<rparr>)) ?key ?W
        = ((True, None), m(?key \<mapsto> \<lparr>m_count = 1, m_ttl = tm + ?W\<rparr>))
      else m(?key \<mapsto> \<lparr>m_count = 1, m_ttl = tm + ?W\<rparr>) = m(?key \<mapsto> \<lparr>m_count = 1, m_ttl = zero_time\<rparr>)"
    by (simp add: mockRedis_def mock_Expire_def mock_lookup_def Add_def)
  have w: "wrap64 (Requests (GetLimit rl clientID) - 1) = Requests (GetLimit rl clientID) - 1"
    using assms(1,2) by (intro wrap64_id) (simp add: is_int64_def)
  show ?thesis
    using fixedWindow_Allow_served [OF assms(1,3) i x] assms(1) by (simp add: w)
qed

text \<open>
  C8: a client with no entry of its own is served under the default configuration.
  The engine over a Store asks the store to increment the key \<^verbatim>\<open>rate:<client>\<close> with a
  ttl of one minute, and decides on the count it gets under the limit 100:
  \<open>allowed = (count \<le> 100)\<close>, the clamped \<open>100 - count\<close> remaining, and on a store
  error the fail-open decision with 100 remaining. On the in-memory store the calls of
  one window are allowed with 99, 98, ... remaining, are denied only from the 101st on,
  and leave the entry with the count of the calls made; the run is one the program can
  perform (fewer than \<open>2 ^ 63\<close> calls, or an advancing clock). A client with an
  entry is decided under its own limit. For the engine over a Redis client, \<open>GetLimit\<close>
  returns the default limit; under a malformed default \<open>Allow\<close> refuses the
  configuration; otherwise it increments the key of the default window and returns
  \<open>allowed = (count \<le> requests)\<close> with the clamped remaining quota and no error, and the
  first call for a key \<open>mockRedis\<close> does not hold is allowed with \<open>requests - 1\<close>
  remaining and stores the count 1. A client with a limit of its own gets that limit.
\<close>

theorem C8_unknown_client_default:
  fixes rl :: RateLimiter and clientID :: string and now' :: time
  defines "dl \<equiv> defaultLimit rl"
    and "W \<equiv> ClientLimit.Window (defaultLimit rl)"
    and "key \<equiv> generateKey clientID now' (ClientLimit.Window (defaultLimit rl))"
  shows "(configs client = None \<longrightarrow>
      (\<forall>counter expiry st'.
          storeIncrement st (''rate:'' @ client) (60 * Second) = ((counter, expiry, None), st')
          \<longrightarrow> Limiter_Allow configs storeIncrement now st client
              = ((counter \<le> 100, (if wrap64 (100 - counter) < 0 then 0 else wrap64 (100 - counter)),
                  (if expiry < now then zero_time else expiry), None), st'))
      \<and> (\<forall>counter expiry err st'.
          storeIncrement st (''rate:'' @ client) (60 * Second) = ((counter, expiry, Some err), st')
          \<longrightarrow> Limiter_Allow configs storeIncrement now st client
              = ((True, 100, zero_time, Some err), st'))
      \<and> ((s (''rate:'' @ client) = None \<or> s (''rate:'' @ client) = Some None
            \<or> (\<exists>e. s (''rate:'' @ client) = Some (Some e) \<and> Expiry e < snd t))
          \<and> (\<forall>u \<in> set calls. snd u \<le> snd t + 60 * Second)
          \<and> (int (length (t # calls)) < 2 ^ 63 \<or> sorted_wrt (<) (map snd (t # calls)))
          \<longrightarrow> map verdict (fst (Allow_calls configs s client (t # calls)))
                = map (\<lambda>i. (int i + 1 \<le> 100, max 0 (100 - (int i + 1)), None))
                    [0..<length (t # calls)]
              \<and> snd (Allow_calls configs s client (t # calls)) (''rate:'' @ client)
                = Some (Some \<lparr>Count = int (length (t # calls)), Expiry = snd t + 60 * Second\<rparr>)))
   \<and> (\<forall>cfg counter expiry st'.
        configs client = Some cfg
        \<and> storeIncrement st (''rate:'' @ client) (ClientConfig.Window cfg) = ((counter, expiry, None), st')
        \<longrightarrow> fst (fst (Limiter_Allow configs storeIncrement now st client)) = (counter \<le> Limit cfg))
   \<and> (clientLimits rl clientID = None \<longrightarrow>
      GetLimit rl clientID = dl
      \<and> (Requests dl \<le> 0 \<or> W \<le> 0
          \<longrightarrow> fixedWindow_Allow redis rl now' r clientID
              = ((False, 0, 0, Some (Errorf (''invalid limit configuration for client '' @ clientID))), r))
      \<and> (\<forall>count b r1 r2.
          0 < Requests dl \<and> 0 < W \<and> Incr redis r key = ((count, None), r1)
          \<and> (if count = 1 then Expire redis r1 key W = ((b, None), r2) else r2 = r1)
          \<longrightarrow> fixedWindow_Allow redis rl now' r clientID
              = ((count \<le> Requests dl,
                  (if wrap64 (Requests dl - count) < 0 then 0 else wrap64 (Requests dl - count)),
                  Sub (Add (windowStart now' W) W) now', None), r2))
      \<and> (0 < Requests dl \<and> Requests dl < 2 ^ 63 \<and> 0 < W \<and> m key = None
          \<longrightarrow> fixedWindow_Allow (mockRedis tm) rl now' m clientID
              = ((True, Requests dl - 1, Sub (Add (windowStart now' W) W) now', None),
                 m(key \<mapsto> \<lparr>m_count = 1, m_ttl = tm + W\<rparr>))))
   \<and> (\<forall>v. clientLimits rl clientID = Some v \<longrightarrow> GetLimit rl clientID = v)"
proof (intro conjI impI allI)
  fix counter expiry st'
  assume "configs client = None"
    and "storeIncrement st (''rate:'' @ client) (60 * Second) = ((counter, expiry, None), st')"
  then show "Limiter_Allow configs storeIncrement now st client
      = ((counter \<le> 100, (if wrap64 (100 - counter) < 0 then 0 else wrap64 (100 - counter)),
          (if expiry < now then zero_time else expiry), None), st')"
    by (simp add: Limiter_Allow_def keyForClient_def DefaultConfig_def Before_def Let_def)
next
  fix counter expiry err st'
  assume "configs client = None"
    and "storeIncrement st (''rate:'' @ client) (60 * Second) = ((counter, expiry, Some err), st')"
  then show "Limiter_Allow configs storeIncrement now st client = ((True, 100, zero_time, Some err), st')"
    by (simp add: Limiter_Allow_def keyForClient_def DefaultConfig_def Let_def)
next
  assume none: "configs client = None"
    and h: "(s (''rate:'' @ client) = None \<or> s (''rate:'' @ client) = Some None
            \<or> (\<exists>e. s (''rate:'' @ client) = Some (Some e) \<and> Expiry e < snd t))
          \<and> (\<forall>u \<in> set calls. snd u \<le> snd t + 60 * Second)
          \<and> (int (length (t # calls)) < 2 ^ 63 \<or> sorted_wrt (<) (map snd (t # calls)))"
  note run = Limiter_Allow_default_run [where configs = configs and client = client and s = s
      and t = t and calls = calls, OF none]
  from h run show "map verdict (fst (Allow_calls configs s client (t # calls)))
                = map (\<lambda>i. (int i + 1 \<le> 100, max 0 (100 - (int i + 1)), None))
                    [0..<length (t # calls)]"
    by blast
  from h run show "snd (Allow_calls configs s client (t # calls)) (''rate:'' @ client)
                = Some (Some \<lparr>Count = int (length (t # calls)), Expiry = snd t + 60 * Second\<rparr>)"
    by blast
next
  fix cfg counter expiry st'
  assume "configs client = Some cfg
        \<and> storeIncrement st (''rate:'' @ client) (ClientConfig.Window cfg) = ((counter, expiry, None), st')"
  then show "fst (fst (Limiter_Allow configs storeIncrement now st client)) = (counter \<le> Limit cfg)"
    by (simp add: Limiter_Allow_def keyForClient_def Let_def)
next
  assume "clientLimits rl clientID = None"
  then show "GetLimit rl clientID = dl"
    by (simp add: GetLimit_def dl_def)
next
  assume "clientLimits rl clientID = None" and "Requests dl \<le> 0 \<or> W \<le> 0"
  then show "fixedWindow_Allow redis rl now' r clientID
      = ((False, 0, 0, Some (Errorf (''invalid limit configuration for client '' @ clientID))), r)"
    by (simp add: fixedWindow_Allow_def GetLimit_def dl_def W_def)
next
  fix count b r1 r2
  assume none: "clientLimits rl clientID = None"
    and h: "0 < Requests dl \<and> 0 < W \<and> Incr redis r key = ((count, None), r1)
          \<and> (if count = 1 then Expire redis r1 key W = ((b, None), r2) else r2 = r1)"
  from none have g: "GetLimit rl clientID = defaultLimit rl"
    by (simp add: GetLimit_def)
  show "fixedWindow_Allow redis rl now' r clientID
      = ((count \<le> Requests dl,
          (if wrap64 (Requests dl - count) < 0 then 0 else wrap64 (Requests dl - count)),
          Sub (Add (windowStart now' W) W) now', None), r2)"
    using h fixedWindow_Allow_served [where rl = rl and clientID = clientID and redis = redis
        and r = r and now = now' and count = count and ?r1.0 = r1 and ?r2.0 = r2 and b = b]
    unfolding g dl_def W_def key_def by auto
next
  assume none: "clientLimits rl clientID = None"
    and h: "0 < Requests dl \<and> Requests dl < 2 ^ 63 \<and> 0 < W \<and> m key = None"
  from none have g: "GetLimit rl clientID = defaultLimit rl"
    by (simp add: GetLimit_def)
  show "fixedWindow_Allow (mockRedis tm) rl now' m clientID
      = ((True, Requests dl - 1, Sub (Add (windowStart now' W) W) now', None),
         m(key \<mapsto> \<lparr>m_count = 1, m_ttl = tm + W\<rparr>))"
    using h fixedWindow_Allow_first_on_mock [where rl = rl and clientID = clientID and now = now'
        and m = m and tm = tm]
    unfolding g dl_def W_def key_def by auto
next
  fix v
  assume "clientLimits rl clientID = Some v"
  then show "GetLimit rl clientID = v"
    by (simp add: GetLimit_def)
qed

text \<open>
  The witness: three calls of a client that \<open>Clients\<close> does not list, on a fresh
  in-memory store, and the first call of a client of a new \<open>RateLimiter\<close> on a fresh
  \<open>mockRedis\<close>.
\<close>

theorem C8_unknown_client_default_witness:
  "map verdict (fst (Allow_calls Clients NewMemoryStore ''unknown-client''
      [(1000, 1001), (2000, 2001), (3000, 3001)]))
     = [(True, 99, None), (True, 98, None), (True, 97, None)]
   \<and> snd (Allow_calls Clients NewMemoryStore ''unknown-client''
      [(1000, 1001), (2000, 2001), (3000, 3001)]) ''rate:unknown-client''
     = Some (Some \<lparr>Count = 3, Expiry = 60000001001\<rparr>)
   \<and> fixedWindow_Allow (mockRedis 1001) (NewRateLimiter \<lparr>Requests = 100, Window = 60 * Second\<rparr>)
        1000 newMockRedis ''bob''
     = ((True, 99, Sub (Add (windowStart 1000 (60 * Second)) (60 * Second)) 1000, None),
        newMockRedis(generateKey ''bob'' 1000 (60 * Second)
          \<mapsto> \<lparr>m_count = 1, m_ttl = 1001 + 60 * Second\<rparr>))"
proof -
  let ?calls = "[(2000, 2001), (3000, 3001)] :: (time \<times> time) list"
  let ?rl = "NewRateLimiter \<lparr>Requests = 100, Window = 60 * Second\<rparr>"
  note inst = C8_unknown_client_default [where configs = Clients and client = "''unknown-client''"
      and s = NewMemoryStore and t = "(1000, 1001)" and calls = ?calls
      and storeIncrement = "MemoryStore_Increment 1001" and st = NewMemoryStore and now = 1000
      and rl = ?rl and clientID = "''bob''" and now' = 1000 and redis = "mockRedis 1001"
      and r = newMockRedis and m = newMockRedis and tm = 1001]
  have a: "Clients ''unknown-client'' = None"
    by (simp add: Clients_def)
  have b: "(NewMemoryStore (''rate:'' @ ''unknown-client'') = None
        \<or> NewMemoryStore (''rate:'' @ ''unknown-client'') = Some None
        \<or> (\<exists>e. NewMemoryStore (''rate:'' @ ''unknown-client'') = Some (Some e)
              \<and> Expiry e < snd (1000 :: time, 1001 :: time)))
      \<and> (\<forall>u \<in> set ?calls. snd u \<le> snd (1000 :: time, 1001 :: time) + 60 * Second)
      \<and> (int (length ((1000 :: time, 1001 :: time) # ?calls)) < 2 ^ 63
         \<or> sorted_wrt (<) (map snd ((1000 :: time, 1001 :: time) # ?calls)))"
    by (simp add: NewMemoryStore_def Second_def)
  from inst a b
  have 1: "map verdict (fst (Allow_calls Clients NewMemoryStore ''unknown-client''
          ((1000, 1001) # ?calls)))
        = map (\<lambda>i. (int i + 1 \<le> 100, max 0 (100 - (int i + 1)), None))
            [0..<length ((1000 :: time, 1001 :: time) # ?calls)]"
    and 2: "snd (Allow_calls Clients NewMemoryStore ''unknown-client'' ((1000, 1001) # ?calls))
          (''rate:'' @ ''unknown-client'')
        = Some (Some \<lparr>Count = int (length ((1000 :: time, 1001 :: time) # ?calls)),
            Expiry = snd (1000 :: time, 1001 :: time) + 60 * Second\<rparr>)"
    by blast+
  have c: "clientLimits ?rl ''bob'' = None"
    by (simp add: NewRateLimiter_def)
  have d: "0 < Requests (defaultLimit ?rl) \<and> Requests (defaultLimit ?rl) < 2 ^ 63
      \<and> 0 < ClientLimit.Window (defaultLimit ?rl)
      \<and> newMockRedis (generateKey ''bob'' 1000 (ClientLimit.Window (defaultLimit ?rl))) = None"
    by (simp add: NewRateLimiter_def newMockRedis_def Second_def)
  from inst c d
  have 3: "fixedWindow_Allow (mockRedis 1001) ?rl 1000 newMockRedis ''bob''
     = ((True, Requests (defaultLimit ?rl) - 1,
         Sub (Add (windowStart 1000 (ClientLimit.Window (defaultLimit ?rl)))
           (ClientLimit.Window (defaultLimit ?rl))) 1000, None),
        newMockRedis(generateKey ''bob'' 1000 (ClientLimit.Window (defaultLimit ?rl))
          \<mapsto> \<lparr>m_count = 1, m_ttl = 1001 + ClientLimit.Window (defaultLimit ?rl)\<rparr>))"
    by blast
  from 1 2 3 show ?thesis
    by (simp add: upt_conv_Cons NewRateLimiter_def Second_def)
qed


section \<open>Window boundaries and keys\<close>

text \<open>
  The decimal rendering of \<^verbatim>\<open>%d\<close> tells any two integers apart.
\<close>

lemma digit_inj:
  assumes "n < 10" and "m < 10" and "digit n = digit m"
  shows "n = m"
proof -
  have "distinct ''0123456789''" by simp
  moreover have "n < length ''0123456789''" "m < length ''0123456789''"
    using assms by simp_all
  ultimately show ?thesis
    using assms(3) unfolding digit_def by (simp only: nth_eq_iff_index_eq)
qed

lemma digit_not_minus: "n < 10 \<Longrightarrow> digit n \<noteq> CHR ''-''"
proof -
  assume "n < 10"
  then have "n < length ''0123456789''" by simp
  then have "''0123456789'' ! n \<in> set ''0123456789''" by (rule nth_mem)
  then show ?thesis unfolding digit_def by auto
qed

lemma decimal_not_Nil: "decimal n \<noteq> []"
  by (subst decimal.simps) simp

lemma decimal_no_minus: "CHR ''-'' \<notin> set (decimal n)"
proof (induction n rule: decimal.induct)
  case (1 n)
  show ?case
  proof (cases "n < 10")
    case True
    then show ?thesis using digit_not_minus [of n] by (subst decimal.simps) auto
  next
    case False
    then have "n mod 10 < 10" by simp
    with False 1 show ?thesis using digit_not_minus [of "n mod 10"]
      by (subst decimal.simps) auto
  qed
qed

lemma decimal_inj: "decimal n = decimal m \<Longrightarrow> n = m"
proof (induction n arbitrary: m rule: decimal.induct)
  case (1 n)
  show ?case
  proof (cases "n < 10")
    case n: True
    show ?thesis
    proof (cases "m < 10")
      case True
      with n "1.prems" show ?thesis
        by (auto simp: decimal.simps [of n] decimal.simps [of m] dest: digit_inj)
    next
      case False
      with n "1.prems" decimal_not_Nil [of "m div 10"] show ?thesis
        by (auto simp: decimal.simps [of n] decimal.simps [of m] Cons_eq_append_conv)
    qed
  next
    case n: False
    show ?thesis
    proof (cases "m < 10")
      case True
      with n "1.prems" decimal_not_Nil [of "n div 10"] show ?thesis
        by (auto simp: decimal.simps [of n] decimal.simps [of m] append_eq_Cons_conv)
    next
      case False
      with n "1.prems" have a: "decimal (n div 10) = decimal (m div 10)"
        and b: "digit (n mod 10) = digit (m mod 10)"
        by (auto simp: decimal.simps [of n] decimal.simps [of m])
      from "1.IH" [OF n a] have "n div 10 = m div 10" .
      moreover from b have "n mod 10 = m mod 10"
        by (intro digit_inj) simp_all
      ultimately show ?thesis
        by (metis div_mult_mod_eq)
    qed
  qed
qed

lemma format_d_inj: "format_d i = format_d j \<Longrightarrow> i = j"
proof -
  assume h: "format_d i = format_d j"
  have m: "CHR ''-'' # xs \<noteq> decimal n" for xs n
    using decimal_no_minus [of n] by (metis list.set_intros(1))
  show ?thesis
  proof (cases "i < 0")
    case i: True
    show ?thesis
    proof (cases "j < 0")
      case True
      with i h have "nat (- i) = nat (- j)"
        by (auto simp: format_d_def dest: decimal_inj)
      with i True show ?thesis by simp
    next
      case False
      with i h m show ?thesis by (simp add: format_d_def)
    qed
  next
    case i: False
    show ?thesis
    proof (cases "j < 0")
      case True
      with i h m [symmetric] show ?thesis by (simp add: format_d_def)
    next
      case False
      with i h have "nat i = nat j"
        by (auto simp: format_d_def dest: decimal_inj)
      with i False show ?thesis by simp
    qed
  qed
qed

lemma generateKey_eq_iff:
  "generateKey c t w = generateKey c t' w \<longleftrightarrow> Unix (windowStart t w) = Unix (windowStart t' w)"
  by (auto simp: generateKey_def Let_def dest: format_d_inj)

lemma windowStart_div: "0 < w \<Longrightarrow> windowStart t w = (t div w) * w"
  by (simp add: windowStart_def Truncate_def minus_mod_eq_div_mult)

lemma Unix_whole_seconds: "Unix (q * (k * Second)) = q * k - 62135596800"
  by (simp add: Unix_def Second_def mult.assoc [symmetric])

text \<open>
  C7, as the code has it: for a window \<open>> 0\<close>, \<open>windowStart\<close> is
  \<open>floor (t / window) * window\<close> (instants counted from Go's zero time). The key is a
  function of the client and of the boundary's Unix time in whole seconds: two instants
  with one boundary have one key, and two keys of a client are equal exactly when the
  boundaries fall in the same second. When the window is a whole number of seconds,
  instants with different boundaries have different keys.
\<close>

theorem C7_window_key:
  assumes "0 < window"
  shows "windowStart t window = (t div window) * window
   \<and> (windowStart t window = windowStart t' window
        \<longrightarrow> generateKey ClientID t window = generateKey ClientID t' window)
   \<and> (generateKey ClientID t window = generateKey ClientID t' window
        \<longleftrightarrow> Unix (windowStart t window) = Unix (windowStart t' window))
   \<and> (window mod Second = 0 \<and> windowStart t window \<noteq> windowStart t' window
        \<longrightarrow> generateKey ClientID t window \<noteq> generateKey ClientID t' window)"
proof (intro conjI impI)
  show "windowStart t window = (t div window) * window"
    using assms by (rule windowStart_div)
  show "generateKey ClientID t window = generateKey ClientID t' window"
    if "windowStart t window = windowStart t' window"
    using that by (simp add: generateKey_def)
  show "generateKey ClientID t window = generateKey ClientID t' window
        \<longleftrightarrow> Unix (windowStart t window) = Unix (windowStart t' window)"
    by (rule generateKey_eq_iff)
  show "generateKey ClientID t window \<noteq> generateKey ClientID t' window"
    if h: "window mod Second = 0 \<and> windowStart t window \<noteq> windowStart t' window"
  proof
    assume "generateKey ClientID t window = generateKey ClientID t' window"
    then have u: "Unix (windowStart t window) = Unix (windowStart t' window)"
      by (simp add: generateKey_eq_iff)
    from h have "Second dvd window"
      by (simp add: mod_eq_0_iff_dvd)
    then obtain k where "window = Second * k"
      by (rule dvdE)
    then have k: "window = k * Second"
      by (simp add: mult.commute)
    with assms have "k \<noteq> 0" by auto
    have "windowStart t window = (t div window) * (k * Second)"
      "windowStart t' window = (t' div window) * (k * Second)"
      using windowStart_div [OF assms] k by simp_all
    with u have "(t div window) * k = (t' div window) * k"
      by (simp add: Unix_whole_seconds)
    with \<open>k \<noteq> 0\<close> have "t div window = t' div window" by simp
    then have "windowStart t window = windowStart t' window"
      by (simp add: windowStart_div [OF assms])
    with h show False by simp
  qed
qed

text \<open>
  The witness: a window of 60 s and three instants in September 2026, the first two in one
  window and the third in the next.
\<close>

theorem C7_window_key_witness:
  "windowStart 63925000012345678901 (60 * Second) = 63925000020000000000 - 60 * Second
   \<and> generateKey ''alpha'' 63925000012345678901 (60 * Second)
     = generateKey ''alpha'' 63925000002345678901 (60 * Second)
   \<and> generateKey ''alpha'' 63925000012345678901 (60 * Second)
     \<noteq> generateKey ''alpha'' 63925000022345678901 (60 * Second)"
proof -
  have w: "(0 :: int) < 60 * Second" by (simp add: Second_def)
  note inst = C7_window_key [OF w, where ClientID = "''alpha''" and t = 63925000012345678901]
  have a: "windowStart 63925000012345678901 (60 * Second)
      = (63925000012345678901 div (60 * Second)) * (60 * Second)"
    using inst by blast
  have b: "generateKey ''alpha'' 63925000012345678901 (60 * Second)
     = generateKey ''alpha'' 63925000002345678901 (60 * Second)"
    using inst [of 63925000002345678901] by (simp add: windowStart_def Truncate_def Second_def)
  have c: "generateKey ''alpha'' 63925000012345678901 (60 * Second)
     \<noteq> generateKey ''alpha'' 63925000022345678901 (60 * Second)"
    using inst [of 63925000022345678901]
    by (simp add: windowStart_def Truncate_def Unix_def Second_def)
  from a b c show ?thesis by (simp add: Second_def)
qed

text \<open>
  C7 as stated fails for a window that is not a whole number of seconds: with a window of
  500 ms, two instants half a second apart have different boundaries and the same key,
  since the key holds the boundary in whole seconds.
\<close>

theorem C7_subsecond_counterexample:
  "windowStart 63925000000000000000 500000000 \<noteq> windowStart 63925000000500000000 500000000
   \<and> generateKey ''alpha'' 63925000000000000000 500000000
     = generateKey ''alpha'' 63925000000500000000 500000000"
  by (simp add: generateKey_def windowStart_def Truncate_def Unix_def Second_def)


text \<open>
  The boundaries are multiples of the window counted from Go's zero time, not from the
  Unix epoch: with a window of 7 s, the boundary of an instant in September 2026 is the
  Unix time 1789403199, which is not a multiple of 7.
\<close>

lemma windowStart_not_epoch_aligned:
  "Unix (windowStart 63925000000000000000 (7 * Second)) = 1789403199
   \<and> (1789403199 :: int) mod 7 = 3"
  by (simp add: windowStart_def Truncate_def Unix_def Second_def)

section \<open>Failed calls and the state of the backend\<close>

text \<open>
  C4, as the code has it: a failed call leaves the backend as the last command it issued
  left it, and never issues a command to undo an increment. \<open>Allow\<close> of the engine over
  a Redis client returns an error in exactly three cases: the configuration is refused and
  the backend is untouched; INCR fails and the backend is in whatever state the failing INCR
  left; or INCR returned 1, EXPIRE failed and the backend is in the state after the
  successful increment and the failed EXPIRE. \<open>Increment\<close> of the Redis store returns an
  error in exactly two cases: the pipeline fails, the count returned is 0 and the backend
  is in whatever state the failing pipeline left; or the pipeline succeeded with no TTL on
  the key, EXPIRE failed, and the incremented count is returned with the error.
\<close>

theorem C4_failed_call_state:
  fixes rl :: RateLimiter and clientID key' :: string and now now'' :: time
    and redis :: "'r RedisClient" and r :: 'r
    and client :: "'q GoRedis" and r' :: 'q and ttl :: duration
  defines "W \<equiv> ClientLimit.Window (GetLimit rl clientID)"
    and "key \<equiv> generateKey clientID now (ClientLimit.Window (GetLimit rl clientID))"
  defines "i \<equiv> Incr redis r key"
  defines "x \<equiv> Expire redis (snd i) key W"
  defines "p \<equiv> ExecIncrTTL client r' key'"
  defines "y \<equiv> ExpireErr client (snd p) key' ttl"
  shows "(snd (snd (snd (fst (fixedWindow_Allow redis rl now r clientID)))) \<noteq> None
      \<longleftrightarrow> (Requests (GetLimit rl clientID) \<le> 0 \<or> W \<le> 0)
          \<and> snd (fixedWindow_Allow redis rl now r clientID) = r
        \<or> 0 < Requests (GetLimit rl clientID) \<and> 0 < W \<and> snd (fst i) \<noteq> None
          \<and> snd (fixedWindow_Allow redis rl now r clientID) = snd i
        \<or> 0 < Requests (GetLimit rl clientID) \<and> 0 < W \<and> fst i = (1, None) \<and> snd (fst x) \<noteq> None
          \<and> snd (fixedWindow_Allow redis rl now r clientID) = snd x)
   \<and> (snd (snd (fst (RedisStore_Increment client now'' r' key' ttl))) \<noteq> None
      \<longleftrightarrow> snd (fst p) \<noteq> None
          \<and> fst (fst (RedisStore_Increment client now'' r' key' ttl)) = 0
          \<and> snd (RedisStore_Increment client now'' r' key' ttl) = snd p
        \<or> snd (fst p) = None \<and> (snd (fst (fst p)) = - 1 \<or> snd (fst (fst p)) = - 2)
          \<and> fst y \<noteq> None
          \<and> fst (fst (RedisStore_Increment client now'' r' key' ttl)) = fst (fst (fst p))
          \<and> snd (RedisStore_Increment client now'' r' key' ttl) = snd y)"
proof (rule conjI)
  show "snd (snd (snd (fst (fixedWindow_Allow redis rl now r clientID)))) \<noteq> None
      \<longleftrightarrow> (Requests (GetLimit rl clientID) \<le> 0 \<or> W \<le> 0)
          \<and> snd (fixedWindow_Allow redis rl now r clientID) = r
        \<or> 0 < Requests (GetLimit rl clientID) \<and> 0 < W \<and> snd (fst i) \<noteq> None
          \<and> snd (fixedWindow_Allow redis rl now r clientID) = snd i
        \<or> 0 < Requests (GetLimit rl clientID) \<and> 0 < W \<and> fst i = (1, None) \<and> snd (fst x) \<noteq> None
          \<and> snd (fixedWindow_Allow redis rl now r clientID) = snd x"
    unfolding fixedWindow_Allow_def Let_def x_def i_def key_def W_def
    by (auto split: if_splits option.splits simp: prod_eq_iff)
  show "snd (snd (fst (RedisStore_Increment client now'' r' key' ttl))) \<noteq> None
      \<longleftrightarrow> snd (fst p) \<noteq> None
          \<and> fst (fst (RedisStore_Increment client now'' r' key' ttl)) = 0
          \<and> snd (RedisStore_Increment client now'' r' key' ttl) = snd p
        \<or> snd (fst p) = None \<and> (snd (fst (fst p)) = - 1 \<or> snd (fst (fst p)) = - 2)
          \<and> fst y \<noteq> None
          \<and> fst (fst (RedisStore_Increment client now'' r' key' ttl)) = fst (fst (fst p))
          \<and> snd (RedisStore_Increment client now'' r' key' ttl) = snd y"
    unfolding RedisStore_Increment_def Let_def y_def p_def
    by (auto split: if_splits option.splits)
qed

text \<open>
  The witness: a backend that is lost after the increment, where \<open>Allow\<close> fails with the
  state the commands left, and a pipeline whose reply is lost, where \<open>Increment\<close> fails
  with the state the pipeline left.
\<close>

theorem C4_failed_call_state_witness:
  "snd (snd (snd (fst (fixedWindow_Allow (lostAfterIncr 1001)
        (NewRateLimiter \<lparr>Requests = 5, Window = 60 * Second\<rparr>) 1000 newMockRedis ''c1''))))
     = Some (Errorf ''connection reset'')
   \<and> snd (fixedWindow_Allow (lostAfterIncr 1001)
        (NewRateLimiter \<lparr>Requests = 5, Window = 60 * Second\<rparr>) 1000 newMockRedis ''c1'')
     = snd (Expire (lostAfterIncr 1001)
         (snd (Incr (lostAfterIncr 1001) newMockRedis (generateKey ''c1'' 1000 (60 * Second))))
         (generateKey ''c1'' 1000 (60 * Second)) (60 * Second))
   \<and> snd (snd (fst (RedisStore_Increment (pipelineReplyLost 1001) 1001 newMockRedis ''rate:c1''
        (60 * Second))))
     = Some (Errorf ''redis pipeline error: i/o timeout'')
   \<and> snd (RedisStore_Increment (pipelineReplyLost 1001) 1001 newMockRedis ''rate:c1'' (60 * Second))
     = snd (ExecIncrTTL (pipelineReplyLost 1001) newMockRedis ''rate:c1'')"
proof -
  let ?rl = "NewRateLimiter \<lparr>Requests = 5, Window = 60 * Second\<rparr>"
  let ?key = "generateKey ''c1'' 1000 (60 * Second)"
  let ?A = "fixedWindow_Allow (lostAfterIncr 1001) ?rl 1000 newMockRedis ''c1''"
  let ?R = "RedisStore_Increment (pipelineReplyLost 1001) 1001 newMockRedis ''rate:c1'' (60 * Second)"
  note inst = C4_failed_call_state [where redis = "lostAfterIncr 1001" and rl = ?rl and now = 1000
      and r = newMockRedis and clientID = "''c1''" and client = "pipelineReplyLost 1001"
      and now'' = 1001 and r' = newMockRedis and key' = "''rate:c1''" and ttl = "60 * Second"]
  have w: "ClientLimit.Window (GetLimit ?rl ''c1'') = 60 * Second"
    and q: "Requests (GetLimit ?rl ''c1'') = 5"
    by (simp_all add: GetLimit_def NewRateLimiter_def)
  have err1: "snd (snd (snd (fst ?A))) = Some (Errorf ''connection reset'')"
    by (simp add: fixedWindow_Allow_def lostAfterIncr_def mockRedis_def mock_Incr_def mock_lookup_def
        newMockRedis_def GetLimit_def NewRateLimiter_def IsZero_def zero_time_def wrap64_def
        Second_def Let_def)
  have ok1: "snd (fst (Incr (lostAfterIncr 1001) newMockRedis ?key)) = None"
    by (simp add: lostAfterIncr_def mockRedis_def mock_Incr_def Let_def)
  from inst [THEN conjunct1] err1 ok1
  have a: "snd ?A = snd (Expire (lostAfterIncr 1001)
         (snd (Incr (lostAfterIncr 1001) newMockRedis ?key)) ?key (60 * Second))"
    unfolding w q by (simp add: Second_def)
  have err2: "snd (snd (fst ?R)) = Some (Errorf ''redis pipeline error: i/o timeout'')"
    by (simp add: RedisStore_Increment_def pipelineReplyLost_def Let_def)
  have bad2: "snd (fst (ExecIncrTTL (pipelineReplyLost 1001) newMockRedis ''rate:c1'')) \<noteq> None"
    by (simp add: pipelineReplyLost_def)
  from inst [THEN conjunct2] err2 bad2
  have b: "snd ?R = snd (ExecIncrTTL (pipelineReplyLost 1001) newMockRedis ''rate:c1'')"
    by auto
  from err1 a err2 b show ?thesis by blast
qed

text \<open>
  C4 as stated fails whenever the backend has applied the increment before the failure.
  When EXPIRE fails after a successful INCR on a fresh backend, \<open>Allow\<close> returns an error
  and the counter of the key has gone from 0 to 1, and \<open>Increment\<close> of the Redis store
  returns the count 1 together with an error. When the reply to INCR is lost, both return
  an error and the counter of the key is 1.
\<close>

theorem C4_partial_increment_counterexample:
  "fst (fixedWindow_Allow (lostAfterIncr 1001) (NewRateLimiter \<lparr>Requests = 5, Window = 60 * Second\<rparr>)
       1000 newMockRedis ''c1'') = (False, 0, 0, Some (Errorf ''connection reset''))
   \<and> m_count (mock_lookup newMockRedis (generateKey ''c1'' 1000 (60 * Second))) = 0
   \<and> m_count (mock_lookup
        (snd (fixedWindow_Allow (lostAfterIncr 1001)
           (NewRateLimiter \<lparr>Requests = 5, Window = 60 * Second\<rparr>) 1000 newMockRedis ''c1''))
        (generateKey ''c1'' 1000 (60 * Second))) = 1
   \<and> fst (RedisStore_Increment (lostAfterPipeline 1001) 1001 newMockRedis ''rate:c1'' (60 * Second))
       = (1, 0, Some (Errorf ''redis expire error: connection reset''))
   \<and> m_count (mock_lookup
        (snd (RedisStore_Increment (lostAfterPipeline 1001) 1001 newMockRedis ''rate:c1'' (60 * Second)))
        ''rate:c1'') = 1
   \<and> fst (fixedWindow_Allow (replyLost 1001) (NewRateLimiter \<lparr>Requests = 5, Window = 60 * Second\<rparr>)
       1000 newMockRedis ''c1'') = (False, 0, 0, Some (Errorf ''i/o timeout''))
   \<and> m_count (mock_lookup
        (snd (fixedWindow_Allow (replyLost 1001)
           (NewRateLimiter \<lparr>Requests = 5, Window = 60 * Second\<rparr>) 1000 newMockRedis ''c1''))
        (generateKey ''c1'' 1000 (60 * Second))) = 1
   \<and> fst (RedisStore_Increment (pipelineReplyLost 1001) 1001 newMockRedis ''rate:c1'' (60 * Second))
       = (0, 0, Some (Errorf ''redis pipeline error: i/o timeout''))
   \<and> m_count (mock_lookup
        (snd (RedisStore_Increment (pipelineReplyLost 1001) 1001 newMockRedis ''rate:c1'' (60 * Second)))
        ''rate:c1'') = 1"
  by (simp add: fixedWindow_Allow_def RedisStore_Increment_def lostAfterIncr_def lostAfterPipeline_def
      replyLost_def pipelineReplyLost_def
      mockRedis_def mock_Incr_def mock_TTL_def mock_lookup_def newMockRedis_def GetLimit_def
      NewRateLimiter_def IsZero_def zero_time_def wrap64_def Second_def Let_def)

end
